theory Spec2Isabelle
  imports Complex_Main "HOL-Library.Sublist" "HOL-Library.AList"
begin

section \<open>Values of the JavaScript run time\<close>

text \<open>
  The value that \<^verbatim>\<open>JSON.parse\<close> returns. An object is the list of its own properties
  in insertion order, every key once (a JavaScript object holds a key once).
\<close>

datatype json =
    JNull
  | JBool bool
  | JNum real
  | JStr string
  | JArr "json list"
  | JObj "(string \<times> json) list"

text \<open>
  What a \<^verbatim>\<open>throw\<close> or a rejected promise carries: \<open>Error m\<close> is an instance of
  \<^verbatim>\<open>Error\<close> (of any subclass, so also the engine's \<^verbatim>\<open>SyntaxError\<close> and
  \<^verbatim>\<open>TypeError\<close>) whose message is \<open>m\<close>; \<open>NonError\<close> is any other thrown value.
\<close>

datatype exn = Error string | NonError

text \<open>
  The message of the \<^verbatim>\<open>TypeError\<close> for reading property \<open>k\<close> of \<^verbatim>\<open>null\<close>, in the
  wording of V8 (the name stands between apostrophes).
\<close>

definition null_read_msg :: "string \<Rightarrow> string" where
  "null_read_msg k =
     ''Cannot read properties of null (reading '' @ [CHR 0x27] @ k @ [CHR 0x27] @ '')''"

text \<open>
  \<^verbatim>\<open>parsed.name\<close> for a name that no prototype defines: reading a property of \<^verbatim>\<open>null\<close>
  throws a \<^verbatim>\<open>TypeError\<close>, an object gives its own property, every other value
  (boolean, number, string, array) gives \<^verbatim>\<open>undefined\<close>, here \<open>None\<close>.
\<close>

fun get_prop :: "json \<Rightarrow> string \<Rightarrow> exn + json option" where
  "get_prop JNull k = Inl (Error (null_read_msg k))"
| "get_prop (JObj kvs) k = Inr (map_of kvs k)"
| "get_prop (JBool b) k = Inr None"
| "get_prop (JNum r) k = Inr None"
| "get_prop (JStr s) k = Inr None"
| "get_prop (JArr xs) k = Inr None"

text \<open>\<^verbatim>\<open>parsed.name = v\<close> on an object: the property is replaced where it stands.\<close>

fun set_prop :: "json \<Rightarrow> string \<Rightarrow> json \<Rightarrow> json" where
  "set_prop (JObj kvs) k v = JObj (AList.update k v kvs)"
| "set_prop JNull k v = JNull"
| "set_prop (JBool b) k v = JBool b"
| "set_prop (JNum r) k v = JNum r"
| "set_prop (JStr s) k v = JStr s"
| "set_prop (JArr xs) k v = JArr xs"

text \<open>JavaScript truthiness of a property value (\<^verbatim>\<open>!x\<close> is its negation).\<close>

fun truthy :: "json option \<Rightarrow> bool" where
  "truthy None = False"
| "truthy (Some JNull) = False"
| "truthy (Some (JBool b)) = b"
| "truthy (Some (JNum r)) = (r \<noteq> 0)"
| "truthy (Some (JStr s)) = (s \<noteq> [])"
| "truthy (Some (JArr xs)) = True"
| "truthy (Some (JObj kvs)) = True"

fun isArray :: "json option \<Rightarrow> bool" where
  "isArray (Some (JArr xs)) = True"
| "isArray (Some JNull) = False"
| "isArray (Some (JBool b)) = False"
| "isArray (Some (JNum r)) = False"
| "isArray (Some (JStr s)) = False"
| "isArray (Some (JObj kvs)) = False"
| "isArray None = False"

text \<open>The elements of an array value; used only after \<open>isArray\<close> has held.\<close>

fun elems :: "json option \<Rightarrow> json list" where
  "elems (Some (JArr xs)) = xs"
| "elems (Some JNull) = []"
| "elems (Some (JBool b)) = []"
| "elems (Some (JNum r)) = []"
| "elems (Some (JStr s)) = []"
| "elems (Some (JObj kvs)) = []"
| "elems None = []"

text \<open>
  \<^verbatim>\<open>String.prototype.trim\<close> on 8-bit characters: the white space and line terminators
  of JavaScript below 256.
\<close>

definition is_space :: "char \<Rightarrow> bool" where
  "is_space c = (c = CHR 0x09 \<or> c = CHR 0x0A \<or> c = CHR 0x0B \<or> c = CHR 0x0C
     \<or> c = CHR 0x0D \<or> c = CHR 0x20 \<or> c = CHR 0xA0)"

definition trim :: "string \<Rightarrow> string" where
  "trim s = rev (dropWhile is_space (rev (dropWhile is_space s)))"

section \<open>geminiService: validation of the story response\<close>

definition malformed_msg :: string where
  "malformed_msg = ''AI response was malformed and is missing required story data.''"

definition empty_story_msg :: string where
  "empty_story_msg = ''AI generated an empty story. Please try again.''"

definition not_understood_msg :: string where
  "not_understood_msg =
     ''Could not understand the story structure from the AI. Please check the console for details.''"

definition unknown_msg :: string where
  "unknown_msg = ''An unknown error occurred while processing the story. Please try again.''"

text \<open>
  The body of the \<^verbatim>\<open>try\<close> block once \<^verbatim>\<open>JSON.parse\<close> has returned \<open>parsed\<close>
  (lines 26 to 44). The two property reads of line 26 throw together or not at all, so
  the order of the disjuncts does not show.
\<close>

definition validate_parsed :: "json \<Rightarrow> exn + json" where
  "validate_parsed parsed =
     (case get_prop parsed ''storyParagraphs'' of
        Inl e \<Rightarrow> Inl e
      | Inr sp \<Rightarrow>
         (case get_prop parsed ''imagePrompts'' of
            Inl e \<Rightarrow> Inl e
          | Inr ip \<Rightarrow>
             if \<not> truthy sp \<or> \<not> isArray sp \<or> \<not> truthy ip \<or> \<not> isArray ip
             then Inl (Error malformed_msg)
             else
               let paragraphsCount = length (elems sp);
                   promptsCount = length (elems ip)
               in if paragraphsCount = 0 \<or> promptsCount = 0
                  then Inl (Error empty_story_msg)
                  else if paragraphsCount \<noteq> promptsCount
                  then
                    let minCount = min paragraphsCount promptsCount;
                        parsed1 = set_prop parsed ''storyParagraphs''
                                    (JArr (take minCount (elems sp)));
                        parsed2 = set_prop parsed1 ''imagePrompts''
                                    (JArr (take minCount (elems ip)))
                    in Inr parsed2
                  else Inr parsed))"

text \<open>The \<^verbatim>\<open>catch\<close> clause (lines 45 to 54): what is thrown on for a caught \<open>e\<close>.\<close>

fun catch_clause :: "exn \<Rightarrow> exn" where
  "catch_clause (Error m) =
     (if prefix ''AI response was malformed'' m \<or> prefix ''AI generated an empty story'' m
      then Error m
      else Error not_understood_msg)"
| "catch_clause NonError = Error unknown_msg"

text \<open>
  \<^verbatim>\<open>parseAndValidateStoryResponse\<close>. \<^verbatim>\<open>JSON.parse\<close> is the platform's; it is a parameter
  that gives the parsed value or what the parser throws.
\<close>

definition parseAndValidateStoryResponse ::
  "(string \<Rightarrow> exn + json) \<Rightarrow> string \<Rightarrow> exn + json" where
  "parseAndValidateStoryResponse JSON_parse responseText =
     (let jsonText = trim responseText;
          body = (case JSON_parse jsonText of
                    Inl e \<Rightarrow> Inl e
                  | Inr parsed \<Rightarrow> validate_parsed parsed)
      in case body of
           Inl e \<Rightarrow> Inl (catch_clause e)
         | Inr r \<Rightarrow> Inr r)"

section \<open>types.ts\<close>

text \<open>
  The \<^verbatim>\<open>image\<close> of a scene is \<^verbatim>\<open>string | null | undefined\<close>: the data URL, \<^verbatim>\<open>null\<close>
  when generation failed, \<^verbatim>\<open>undefined\<close> while it is awaited.
\<close>

datatype image = Undefined | Null | Image string

fun truthy_image :: "image \<Rightarrow> bool" where
  "truthy_image Undefined = False"
| "truthy_image Null = False"
| "truthy_image (Image url) = (url \<noteq> [])"

text \<open>
  Optional fields are options, \<open>None\<close> for \<^verbatim>\<open>undefined\<close>. The \<^verbatim>\<open>imagePrompt\<close> is an
  option as well: the callbacks fill it with \<^verbatim>\<open>imagePrompts[i]\<close>, which is \<^verbatim>\<open>undefined\<close>
  beyond the end of the array. The field \<^verbatim>\<open>image\<close> is \<open>sceneImage\<close> and the field \<^verbatim>\<open>id\<close>
  is \<open>storyId\<close> here.
\<close>

record Scene =
  "paragraph" :: string
  imagePrompt :: "string option"
  sceneImage :: image
  videoPrompt :: "string option"
  isVideoPromptLoading :: "bool option"
  isRegenerating :: "bool option"

datatype story_mode = Conclude | Extend

record StoryResult =
  storyId :: int
  title :: string
  scenes :: "Scene list"
  storyMode :: story_mode
  isLoading :: "bool option"

record StoryGenerationResponse =
  storyTitle :: string
  storyParagraphs :: "string list"
  imagePrompts :: "string list"

section \<open>geminiService: the two pipelines\<close>

text \<open>
  The remote service is a state \<open>'w\<close> that every call reads and advances.
  \<^verbatim>\<open>generateImage\<close> for one prompt (the character parts and the aspect ratio are the
  same in every call of a run) gives the data URL or what its promise rejects with.
\<close>

type_synonym 'w image_service = "string \<Rightarrow> 'w \<Rightarrow> (exn + string) \<times> 'w"

text \<open>
  Lines 276 to 281: the call, and on its rejection one more call after the pause of a
  second. Returned with the outcome: the outcomes of the calls made, in order.
\<close>

definition generateImage_retry ::
  "'w image_service \<Rightarrow> string \<Rightarrow> 'w \<Rightarrow> (exn + string) \<times> (exn + string) list \<times> 'w" where
  "generateImage_retry generateImage prompt w =
     (case generateImage prompt w of
        (Inr url, w1) \<Rightarrow> (Inr url, [Inr url], w1)
      | (Inl err, w1) \<Rightarrow>
          (case generateImage prompt w1 of
             (r, w2) \<Rightarrow> (r, [Inl err, r], w2)))"

text \<open>What the loop did for one scene: the calls it made and the image it handed on.\<close>

record scene_log =
  attempts :: "(exn + string) list"
  delivered :: image

text \<open>
  The \<^verbatim>\<open>for\<close> loop of lines 272 to 288 (and 331 to 347), from index \<open>i\<close> on the prompts
  left; \<open>totalCount\<close> is \<^verbatim>\<open>imagePrompts.length\<close>. The callbacks act on a state \<open>'s\<close>.
\<close>

fun image_loop ::
  "'w image_service \<Rightarrow> (nat \<Rightarrow> (nat \<times> nat) option \<Rightarrow> 's \<Rightarrow> 's) \<Rightarrow> (image \<Rightarrow> nat \<Rightarrow> 's \<Rightarrow> 's)
    \<Rightarrow> nat \<Rightarrow> string list \<Rightarrow> nat \<Rightarrow> nat \<Rightarrow> 'w \<Rightarrow> 's \<Rightarrow> nat \<times> scene_log list \<times> 'w \<times> 's" where
  "image_loop generateImage updateProgress onImageGenerated totalCount [] i failedImageCount w s =
     (failedImageCount, [], w, s)"
| "image_loop generateImage updateProgress onImageGenerated totalCount (prompt # rest) i
       failedImageCount w s =
     (case generateImage_retry generateImage prompt w of
        (r, tries, w1) \<Rightarrow>
          let img = (case r of Inr url \<Rightarrow> Image url | Inl err \<Rightarrow> Null);
              failedImageCount1 =
                (case r of Inr url \<Rightarrow> failedImageCount | Inl err \<Rightarrow> failedImageCount + 1);
              s1 = onImageGenerated img i s;
              s2 = updateProgress 3 (Some (i + 1, totalCount)) s1
          in case image_loop generateImage updateProgress onImageGenerated totalCount rest (i + 1)
                    failedImageCount1 w1 s2 of
               (failed, slog, w2, s3) \<Rightarrow>
                 (failed, \<lparr>attempts = tries, delivered = img\<rparr> # slog, w2, s3))"

definition all_images_failed_msg :: string where
  "all_images_failed_msg =
     ''Failed to generate any images. This could be due to API restrictions or a network issue. Please try again.''"

definition all_new_images_failed_msg :: string where
  "all_new_images_failed_msg = ''Failed to generate any new images. Please try again.''"

text \<open>
  \<^verbatim>\<open>generateStoryAndImages\<close>. The story stage \<^verbatim>\<open>generateStoryAndPrompts\<close> is a call of the
  service, typed as the source types it; encoding the character files does not fail.
  The result: how the promise settles, the record of the image loop, the service and the
  state of the callbacks afterwards.
\<close>

definition generateStoryAndImages ::
  "('w \<Rightarrow> (exn + StoryGenerationResponse) \<times> 'w) \<Rightarrow> 'w image_service
    \<Rightarrow> (nat \<Rightarrow> (nat \<times> nat) option \<Rightarrow> 's \<Rightarrow> 's)
    \<Rightarrow> (string \<Rightarrow> string list \<Rightarrow> string list \<Rightarrow> 's \<Rightarrow> 's)
    \<Rightarrow> (image \<Rightarrow> nat \<Rightarrow> 's \<Rightarrow> 's)
    \<Rightarrow> 'w \<Rightarrow> 's \<Rightarrow> (exn + unit) \<times> scene_log list \<times> 'w \<times> 's" where
  "generateStoryAndImages generateStoryAndPrompts generateImage updateProgress
       onStoryGenerated onImageGenerated w s =
     (let s1 = updateProgress 1 None s
      in case generateStoryAndPrompts w of
           (Inl err, w1) \<Rightarrow> (Inl err, [], w1, s1)
         | (Inr response, w1) \<Rightarrow>
             let prompts = imagePrompts response;
                 s2 = onStoryGenerated (storyTitle response) (storyParagraphs response) prompts s1;
                 s3 = updateProgress 2 None s2;
                 s4 = updateProgress 3 (Some (0, length prompts)) s3
             in case image_loop generateImage updateProgress onImageGenerated
                       (length prompts) prompts 0 0 w1 s4 of
                  (failedImageCount, slog, w2, s5) \<Rightarrow>
                    if failedImageCount > 0 \<and> failedImageCount = length prompts
                    then (Inl (Error all_images_failed_msg), slog, w2, s5)
                    else (Inr (), slog, w2, updateProgress 4 None s5))"

text \<open>
  \<^verbatim>\<open>continueStoryAndImages\<close>. The story stage \<^verbatim>\<open>continueStoryAndPrompts\<close> receives the
  paragraphs of the existing story and gives the new paragraphs and prompts.
\<close>

definition continueStoryAndImages ::
  "StoryResult \<Rightarrow> (string list \<Rightarrow> 'w \<Rightarrow> (exn + string list \<times> string list) \<times> 'w)
    \<Rightarrow> 'w image_service
    \<Rightarrow> (nat \<Rightarrow> (nat \<times> nat) option \<Rightarrow> 's \<Rightarrow> 's)
    \<Rightarrow> (string list \<Rightarrow> string list \<Rightarrow> 's \<Rightarrow> 's)
    \<Rightarrow> (image \<Rightarrow> nat \<Rightarrow> 's \<Rightarrow> 's)
    \<Rightarrow> 'w \<Rightarrow> 's \<Rightarrow> (exn + unit) \<times> scene_log list \<times> 'w \<times> 's" where
  "continueStoryAndImages existingStory continueStoryAndPrompts generateImage updateProgress
       onNewStoryPartsGenerated onNewImageGenerated w s =
     (let s1 = updateProgress 1 None s;
          existingParagraphs = map paragraph (scenes existingStory)
      in case continueStoryAndPrompts existingParagraphs w of
           (Inl err, w1) \<Rightarrow> (Inl err, [], w1, s1)
         | (Inr (paragraphs, prompts), w1) \<Rightarrow>
             let s2 = onNewStoryPartsGenerated paragraphs prompts s1;
                 s3 = updateProgress 2 None s2;
                 s4 = updateProgress 3 (Some (0, length prompts)) s3
             in case image_loop generateImage updateProgress onNewImageGenerated
                       (length prompts) prompts 0 0 w1 s4 of
                  (failedImageCount, slog, w2, s5) \<Rightarrow>
                    if failedImageCount > 0 \<and> failedImageCount = length prompts
                    then (Inl (Error all_new_images_failed_msg), slog, w2, s5)
                    else (Inr (), slog, w2, updateProgress 4 None s5))"

section \<open>App: the state and the callbacks\<close>

text \<open>
  The state of the component that the handlers read and set. A character file stands
  by its name. \<open>appLoading\<close> is the state \<^verbatim>\<open>isLoading\<close> of the component (the story has a
  field of that name too).
\<close>

record App =
  character1 :: "string option"
  character2 :: "string option"
  storyHistory :: "StoryResult list"
  activeStoryIndex :: "nat option"
  appLoading :: bool
  continuationMode :: "story_mode option"
  error :: "string option"
  isEditModalOpen :: bool
  editingSceneIndex :: "nat option"
  isEditingImage :: bool
  generationStep :: nat
  illustrationProgress :: "(nat \<times> nat) option"

text \<open>\<^verbatim>\<open>setStoryHistory(prev => f(prev))\<close>: the updaters are applied in the order queued.\<close>

definition setStoryHistory :: "(StoryResult list \<Rightarrow> StoryResult list) \<Rightarrow> App \<Rightarrow> App" where
  "setStoryHistory f s = s\<lparr>storyHistory := f (storyHistory s)\<rparr>"

text \<open>\<^verbatim>\<open>xs.map((x, i) => f(x, i))\<close>.\<close>

definition mapi :: "('a \<Rightarrow> nat \<Rightarrow> 'b) \<Rightarrow> 'a list \<Rightarrow> 'b list" where
  "mapi f xs = map (\<lambda>(x, i). f x i) (zip xs [0..<length xs])"

text \<open>\<^verbatim>\<open>xs[i]\<close> read: \<^verbatim>\<open>undefined\<close> out of range.\<close>

definition nth_opt :: "'a list \<Rightarrow> nat \<Rightarrow> 'a option" where
  "nth_opt xs i = (if i < length xs then Some (xs ! i) else None)"

definition handleProgressUpdate :: "nat \<Rightarrow> (nat \<times> nat) option \<Rightarrow> App \<Rightarrow> App" where
  "handleProgressUpdate step progress s =
     (let s1 = s\<lparr>generationStep := step\<rparr>
      in if step = 3 \<and> progress \<noteq> None then s1\<lparr>illustrationProgress := progress\<rparr> else s1)"

text \<open>
  Line 112: the version of index 0 reports progress, the others have the empty handler.
\<close>

definition progressHandler :: "nat \<Rightarrow> nat \<Rightarrow> (nat \<times> nat) option \<Rightarrow> App \<Rightarrow> App" where
  "progressHandler index step progress s =
     (if index = 0 then handleProgressUpdate step progress s else s)"

text \<open>
  The scenes that both story callbacks build from the paragraphs and the prompts
  (lines 92 to 96 and 175 to 179).
\<close>

definition scene_placeholders :: "string list \<Rightarrow> string list \<Rightarrow> Scene list" where
  "scene_placeholders paragraphs prompts =
     mapi (\<lambda>p i. \<lparr>paragraph = p, imagePrompt = nth_opt prompts i, sceneImage = Undefined,
                   videoPrompt = None, isVideoPromptLoading = None, isRegenerating = None\<rparr>)
       paragraphs"

text \<open>
  Lines 104 to 107 and 194 to 197: the copy of the scene array, and the image written
  to the scene at the index when there is a scene there (a scene is an object, so
  truthy); nothing is written otherwise.
\<close>

definition write_image :: "image \<Rightarrow> nat \<Rightarrow> Scene list \<Rightarrow> Scene list" where
  "write_image img i newScenes =
     (if i < length newScenes then newScenes[i := (newScenes ! i)\<lparr>sceneImage := img\<rparr>]
      else newScenes)"

text \<open>The callbacks of \<^verbatim>\<open>handleGenerate\<close> for the version of id \<open>sid\<close> (lines 86 to 110).\<close>

definition onStoryGenerated ::
  "int \<Rightarrow> string \<Rightarrow> string list \<Rightarrow> string list \<Rightarrow> StoryResult list \<Rightarrow> StoryResult list" where
  "onStoryGenerated sid ttl paragraphs prompts prev =
     map (\<lambda>story. if storyId story \<noteq> sid then story
                   else story\<lparr>title := ttl, scenes := scene_placeholders paragraphs prompts\<rparr>)
       prev"

definition onImageGenerated :: "int \<Rightarrow> image \<Rightarrow> nat \<Rightarrow> StoryResult list \<Rightarrow> StoryResult list" where
  "onImageGenerated sid img imgIndex prev =
     map (\<lambda>story. if storyId story \<noteq> sid then story
                   else story\<lparr>scenes := write_image img imgIndex (scenes story)\<rparr>)
       prev"

text \<open>
  The callbacks of \<^verbatim>\<open>handleContinueStory\<close> (lines 173 to 200) for the active index \<open>a\<close>.
  They share the local variable \<^verbatim>\<open>newSceneCount\<close>, which is the first component of their
  state. The absolute index is a JavaScript number and may be negative.
\<close>

definition onNewStoryPartsGenerated ::
  "nat \<Rightarrow> story_mode \<Rightarrow> string list \<Rightarrow> string list \<Rightarrow> nat \<times> App \<Rightarrow> nat \<times> App" where
  "onNewStoryPartsGenerated a mode paragraphs prompts st =
     (case st of (newSceneCount, s) \<Rightarrow>
        let newSceneCount1 = length paragraphs;
            newScenePlaceholders = scene_placeholders paragraphs prompts
        in (newSceneCount1,
            setStoryHistory
              (mapi (\<lambda>story index. if index \<noteq> a then story
                       else story\<lparr>scenes := scenes story @ newScenePlaceholders,
                                  storyMode := mode\<rparr>)) s))"

definition onNewImageGenerated :: "nat \<Rightarrow> image \<Rightarrow> nat \<Rightarrow> nat \<times> App \<Rightarrow> nat \<times> App" where
  "onNewImageGenerated a img index st =
     (case st of (newSceneCount, s) \<Rightarrow>
        (newSceneCount,
         setStoryHistory
           (mapi (\<lambda>story i. if i \<noteq> a then story
                    else
                      let absoluteIndex =
                            int (length (scenes story)) - int newSceneCount + int index
                      in if 0 \<le> absoluteIndex
                         then story\<lparr>scenes := write_image img (nat absoluteIndex) (scenes story)\<rparr>
                         else story\<lparr>scenes := scenes story\<rparr>)) s))"

text \<open>\<^verbatim>\<open>handleProgressUpdate\<close> beside the local variable of \<^verbatim>\<open>handleContinueStory\<close>.\<close>

definition continueProgress :: "nat \<Rightarrow> (nat \<times> nat) option \<Rightarrow> nat \<times> App \<Rightarrow> nat \<times> App" where
  "continueProgress step progress st =
     (case st of (newSceneCount, s) \<Rightarrow> (newSceneCount, handleProgressUpdate step progress s))"

section \<open>App: the follow-up actions on a scene\<close>

text \<open>
  A run of a handler: it returned at a guard and set nothing; or the read of
  \<^verbatim>\<open>scenes[i].image\<close> at an index without a scene threw out of the handler; or it ran,
  with the state while the remote call is awaited and the state at the end.
\<close>

datatype handler_run = Returned | Uncaught | Ran App App

text \<open>\<^verbatim>\<open>err instanceof Error ? err.message : fallback\<close>.\<close>

fun message_or :: "exn \<Rightarrow> string \<Rightarrow> string" where
  "message_or (Error m) fallback = m"
| "message_or NonError fallback = fallback"

text \<open>
  The updaters of the two handlers below assign to the scene at an index which the
  guard has found in range of the active story they are applied to.
\<close>

definition update_scene :: "nat \<Rightarrow> nat \<Rightarrow> (Scene \<Rightarrow> Scene) \<Rightarrow> StoryResult list \<Rightarrow> StoryResult list" where
  "update_scene a sceneIndex f prev =
     mapi (\<lambda>story index. if index \<noteq> a then story
             else story\<lparr>scenes := (scenes story)[sceneIndex := f (scenes story ! sceneIndex)]\<rparr>)
       prev"

text \<open>
  \<^verbatim>\<open>handleGenerateVideoPrompt\<close> (lines 274 to 314). \<open>t\<close> is the translation function,
  \<open>generateVideoPrompt\<close> the outcome of the remote call for a paragraph and an image.
\<close>

definition handleGenerateVideoPrompt ::
  "(string \<Rightarrow> string) \<Rightarrow> (string \<Rightarrow> image \<Rightarrow> exn + string) \<Rightarrow> nat \<Rightarrow> App \<Rightarrow> handler_run" where
  "handleGenerateVideoPrompt t generateVideoPrompt sceneIndex s =
     (case activeStoryIndex s of
        None \<Rightarrow> Returned
      | Some a \<Rightarrow>
          if character1 s = None then Returned
          else if \<not> a < length (storyHistory s) then Returned
          else
            let currentStory = storyHistory s ! a
            in if \<not> sceneIndex < length (scenes currentStory) then Uncaught
               else if \<not> truthy_image (sceneImage (scenes currentStory ! sceneIndex))
               then Returned
               else
                 let s1 = setStoryHistory
                            (update_scene a sceneIndex
                               (\<lambda>sc. sc\<lparr>isVideoPromptLoading := Some True,
                                        videoPrompt := None\<rparr>)) s;
                     s2 = s1\<lparr>error := None\<rparr>;
                     scene = scenes currentStory ! sceneIndex
                 in case generateVideoPrompt (paragraph scene) (sceneImage scene) of
                      Inr text \<Rightarrow>
                        Ran s2
                          (setStoryHistory
                             (update_scene a sceneIndex
                                (\<lambda>sc. sc\<lparr>videoPrompt := Some text,
                                         isVideoPromptLoading := Some False\<rparr>)) s2)
                    | Inl err \<Rightarrow>
                        let s3 = setStoryHistory
                                   (update_scene a sceneIndex
                                      (\<lambda>sc. sc\<lparr>isVideoPromptLoading := Some False\<rparr>)) s2
                        in Ran s2 (s3\<lparr>error := Some (message_or err (t ''errorVideoPrompt''))\<rparr>))"

text \<open>
  \<^verbatim>\<open>handleEditImage\<close> (lines 326 to 360), with \<^verbatim>\<open>handleCloseEditModal\<close> at its end.
  \<open>editImage\<close> is the outcome of the remote call for a base image and an instruction.
\<close>

definition handleCloseEditModal :: "App \<Rightarrow> App" where
  "handleCloseEditModal s = s\<lparr>isEditModalOpen := False, editingSceneIndex := None\<rparr>"

definition handleEditImage ::
  "(string \<Rightarrow> string) \<Rightarrow> (image \<Rightarrow> string \<Rightarrow> exn + string) \<Rightarrow> string \<Rightarrow> App \<Rightarrow> handler_run" where
  "handleEditImage t editImage editPrompt s =
     (case activeStoryIndex s of
        None \<Rightarrow> Returned
      | Some a \<Rightarrow>
          (case editingSceneIndex s of
             None \<Rightarrow> Returned
           | Some e \<Rightarrow>
               if character1 s = None \<or> editPrompt = [] then Returned
               else if \<not> a < length (storyHistory s) then Returned
               else
                 let currentStory = storyHistory s ! a
                 in if \<not> e < length (scenes currentStory) then Uncaught
                    else if \<not> truthy_image (sceneImage (scenes currentStory ! e))
                    then Returned
                    else
                      let s1 = s\<lparr>isEditingImage := True, error := None\<rparr>;
                          sceneToEdit = scenes currentStory ! e;
                          s2 = (case editImage (sceneImage sceneToEdit) editPrompt of
                                  Inr newImage \<Rightarrow>
                                    setStoryHistory
                                      (update_scene a e
                                         (\<lambda>sc. sc\<lparr>sceneImage := Image newImage\<rparr>)) s1
                                | Inl err \<Rightarrow>
                                    s1\<lparr>error := Some (message_or err (t ''errorEditImage''))\<rparr>);
                          s3 = s2\<lparr>isEditingImage := False\<rparr>
                      in Ran s1 (handleCloseEditModal s3)))"

section \<open>The record of the calls to the image service\<close>

text \<open>
  A service that keeps the record of the calls made to it: the prompt and the answer of
  each call, in the order of the calls. The record is part of the state of the service,
  which the pipelines hand on and cannot read.
\<close>

definition recording ::
  "'w image_service \<Rightarrow> ((string \<times> (exn + string)) list \<times> 'w) image_service" where
  "recording generateImage prompt cw =
     (case cw of
        (calls, w) \<Rightarrow>
          (case generateImage prompt w of
             (r, w1) \<Rightarrow> (r, (calls @ [(prompt, r)], w1))))"

section \<open>The image callback on scene objects\<close>

text \<open>
  A scene is an object: the store holds the scene objects, an address is a position
  in it, and the scene array of a story holds addresses. The callbacks build every
  story object and every array anew (spread and \<^verbatim>\<open>map\<close>) and write to none that exists,
  so stories and arrays stay values here.
\<close>

record StoryRefs =
  refId :: int
  refTitle :: string
  refScenes :: "nat list"
  refMode :: story_mode
  refLoading :: "bool option"

text \<open>A story, and a collection, as they read through a store.\<close>

definition read_story :: "Scene list \<Rightarrow> StoryRefs \<Rightarrow> StoryResult" where
  "read_story h story =
     \<lparr>storyId = refId story, title = refTitle story,
      scenes = map (\<lambda>r. h ! r) (refScenes story),
      storyMode = refMode story, isLoading = refLoading story\<rparr>"

definition read_history :: "Scene list \<Rightarrow> StoryRefs list \<Rightarrow> StoryResult list" where
  "read_history h hist = map (read_story h) hist"

text \<open>
  \<^verbatim>\<open>onImageGenerated\<close> of \<^verbatim>\<open>handleGenerate\<close> (lines 101 to 110) on scene objects.
  \<^verbatim>\<open>[...story.scenes]\<close> is a new array of the same addresses, and
  \<^verbatim>\<open>newScenes[imgIndex].image = image\<close> writes to the object at the address it finds there.
  \<^verbatim>\<open>map\<close> visits the stories in order.
\<close>

fun onImageGenerated_store ::
  "int \<Rightarrow> image \<Rightarrow> nat \<Rightarrow> Scene list \<Rightarrow> StoryRefs list \<Rightarrow> Scene list \<times> StoryRefs list" where
  "onImageGenerated_store sid img imgIndex h [] = (h, [])"
| "onImageGenerated_store sid img imgIndex h (story # rest) =
     (if refId story \<noteq> sid
      then (case onImageGenerated_store sid img imgIndex h rest of
              (h2, rest2) \<Rightarrow> (h2, story # rest2))
      else
        let newScenes = refScenes story;
            h1 = (if imgIndex < length newScenes
                  then h[newScenes ! imgIndex := (h ! (newScenes ! imgIndex))\<lparr>sceneImage := img\<rparr>]
                  else h)
        in case onImageGenerated_store sid img imgIndex h1 rest of
             (h2, rest2) \<Rightarrow> (h2, story\<lparr>refScenes := newScenes\<rparr> # rest2))"

text \<open>
  The updater of \<^verbatim>\<open>handleRegenerateImage\<close> that stores the new image (lines 254 to 259),
  for the active index \<open>a\<close>:
  \<^verbatim>\<open>newScenes[sceneIndex] = { ...newScenes[sceneIndex], image: newImage }\<close> makes a new
  scene object, at the next free address, and puts its address into the new array. Where
  the index has no scene the result is \<open>None\<close>: the handler has returned at its guard
  (line 231) before, and the object the assignment would make there is no scene.
\<close>

definition regenerate_store ::
  "nat \<Rightarrow> nat \<Rightarrow> string \<Rightarrow> Scene list \<Rightarrow> StoryRefs list
    \<Rightarrow> (Scene list \<times> StoryRefs list) option" where
  "regenerate_store a sceneIndex newImage h prev =
     (if \<not> a < length prev then Some (h, prev)
      else
        let story = prev ! a;
            newScenes = refScenes story
        in if \<not> sceneIndex < length newScenes then None
           else
             let copy = (h ! (newScenes ! sceneIndex))\<lparr>sceneImage := Image newImage\<rparr>
             in Some (h @ [copy],
                      prev[a := story\<lparr>refScenes := newScenes[sceneIndex := length h]\<rparr>]))"

section \<open>Outcomes of a scene\<close>

text \<open>
  The three ways the loop can leave a scene: the first call gave the image; the first
  call failed and the second gave the image; both calls failed and \<^verbatim>\<open>null\<close> was handed on.
\<close>

definition scene_outcome :: "scene_log \<Rightarrow> bool" where
  "scene_outcome e \<longleftrightarrow>
     (\<exists>url. attempts e = [Inr url] \<and> delivered e = Image url)
   \<or> (\<exists>err url. attempts e = [Inl err, Inr url] \<and> delivered e = Image url)
   \<or> (\<exists>err1 err2. attempts e = [Inl err1, Inl err2] \<and> delivered e = Null)"

section \<open>Sample inputs\<close>

text \<open>
  A parser given by a table of the texts it accepts and their values; it throws on
  every other text.
\<close>

definition parse_table :: "(string \<times> json) list \<Rightarrow> string \<Rightarrow> exn + json" where
  "parse_table tbl txt =
     (case map_of tbl txt of
        Some v \<Rightarrow> Inr v
      | None \<Rightarrow> Inl (Error ''Unexpected end of JSON input''))"

text \<open>
  Parsed responses: three paragraphs with two prompts; no paragraph with one prompt; a
  paragraph and no field of prompts.
\<close>

definition response_3_2 :: json where
  "response_3_2 =
     JObj [(''storyTitle'', JStr ''The Kite''),
           (''storyParagraphs'', JArr [JStr ''p1'', JStr ''p2'', JStr ''p3'']),
           (''imagePrompts'', JArr [JStr ''q1'', JStr ''q2''])]"

definition response_0_1 :: json where
  "response_0_1 =
     JObj [(''storyTitle'', JStr ''The Kite''),
           (''storyParagraphs'', JArr []),
           (''imagePrompts'', JArr [JStr ''q1''])]"

definition response_no_prompts :: json where
  "response_no_prompts =
     JObj [(''storyTitle'', JStr ''The Kite''),
           (''storyParagraphs'', JArr [JStr ''p1''])]"

text \<open>
  A session with one story of two scenes: the first has its image and a video prompt,
  the image of the second failed. The first scene is open in the edit dialogue.
\<close>

definition scene_ready :: Scene where
  "scene_ready =
     \<lparr>paragraph = ''p1'', imagePrompt = Some ''q1'',
      sceneImage = Image ''data:image/png;base64,AAAA'',
      videoPrompt = Some ''The kite climbs while the camera tilts up'',
      isVideoPromptLoading = Some False, isRegenerating = None\<rparr>"

definition scene_failed :: Scene where
  "scene_failed =
     \<lparr>paragraph = ''p2'', imagePrompt = Some ''q2'', sceneImage = Null,
      videoPrompt = None, isVideoPromptLoading = None, isRegenerating = None\<rparr>"

definition story_kite :: StoryResult where
  "story_kite =
     \<lparr>storyId = 1700000000000, title = ''The Kite'', scenes = [scene_ready, scene_failed],
      storyMode = Extend, isLoading = Some False\<rparr>"

definition app_kite :: App where
  "app_kite =
     \<lparr>character1 = Some ''hero.png'', character2 = None, storyHistory = [story_kite],
      activeStoryIndex = Some 0, appLoading = False, continuationMode = None, error = None,
      isEditModalOpen = True, editingSceneIndex = Some 0, isEditingImage = False,
      generationStep = 0, illustrationProgress = None\<rparr>"

text \<open>
  The same session after a video-prompt call for the first scene has answered with blank
  text: the prompt is the empty string, and the page still offers the action.
\<close>

definition app_kite_blank :: App where
  "app_kite_blank =
     app_kite\<lparr>storyHistory :=
       [story_kite\<lparr>scenes := [scene_ready\<lparr>videoPrompt := Some []\<rparr>, scene_failed]\<rparr>]\<rparr>"

text \<open>Remote calls that fail and remote calls that answer; a translation table.\<close>

definition video_service_down :: "string \<Rightarrow> image \<Rightarrow> exn + string" where
  "video_service_down p img = Inl (Error ''503 Service Unavailable'')"

definition video_service_up :: "string \<Rightarrow> image \<Rightarrow> exn + string" where
  "video_service_up p img = Inr ''Slow pan over the hill''"

definition edit_service_down :: "image \<Rightarrow> string \<Rightarrow> exn + string" where
  "edit_service_down img instruction = Inl (Error ''Image editing failed, no image data received.'')"

definition edit_service_up :: "image \<Rightarrow> string \<Rightarrow> exn + string" where
  "edit_service_up img instruction = Inr ''data:image/png;base64,BBBB''"

definition t_en :: "string \<Rightarrow> string" where
  "t_en key = (if key = ''errorVideoPrompt'' then ''Failed to generate video prompt.''
               else if key = ''errorEditImage'' then ''Failed to edit image.''
               else key)"

text \<open>
  An image service that answers the calls with the outcomes of a script, one after the
  other, and fails when the script is used up. A story stage that gives two paragraphs
  with two prompts, and a continuation stage that gives one paragraph with one prompt.
\<close>

fun scripted_image_service :: "(exn + string) list image_service" where
  "scripted_image_service prompt [] =
     (Inl (Error ''Image generation failed, no image data received.''), [])"
| "scripted_image_service prompt (r # rs) = (r, rs)"

definition no_image :: "exn + string" where
  "no_image = Inl (Error ''Image generation failed, no image data received.'')"

definition story_stage_two :: "'w \<Rightarrow> (exn + StoryGenerationResponse) \<times> 'w" where
  "story_stage_two w =
     (Inr \<lparr>storyTitle = ''The Kite'', storyParagraphs = [''p1'', ''p2''],
           imagePrompts = [''q1'', ''q2'']\<rparr>, w)"

definition continue_stage_one ::
  "string list \<Rightarrow> 'w \<Rightarrow> (exn + string list \<times> string list) \<times> 'w" where
  "continue_stage_one existingParagraphs w = (Inr ([''p3''], [''q3'']), w)"

text \<open>The session after a second story has been asked for: its placeholder is active.\<close>

definition story_placeholder :: StoryResult where
  "story_placeholder =
     \<lparr>storyId = 1700000100000, title = ''Generating'', scenes = [], storyMode = Conclude,
      isLoading = Some True\<rparr>"

definition app_generating :: App where
  "app_generating =
     \<lparr>character1 = Some ''hero.png'', character2 = None,
      storyHistory = [story_kite, story_placeholder],
      activeStoryIndex = Some 1, appLoading = True, continuationMode = None, error = None,
      isEditModalOpen = False, editingSceneIndex = None, isEditingImage = False,
      generationStep = 0, illustrationProgress = None\<rparr>"

text \<open>
  The second story after its story callback, on scene objects: the store holds its two
  scenes, still awaiting their images, at the addresses 0 and 1.
\<close>

definition scene_awaited :: "string \<Rightarrow> string \<Rightarrow> Scene" where
  "scene_awaited p q =
     \<lparr>paragraph = p, imagePrompt = Some q, sceneImage = Undefined, videoPrompt = None,
      isVideoPromptLoading = None, isRegenerating = None\<rparr>"

definition store_two :: "Scene list" where
  "store_two = [scene_awaited ''p1'' ''q1'', scene_awaited ''p2'' ''q2'']"

definition history_two :: "StoryRefs list" where
  "history_two =
     [\<lparr>refId = 1700000100000, refTitle = ''The Kite'', refScenes = [0, 1],
       refMode = Conclude, refLoading = Some True\<rparr>]"

section \<open>Properties of the validation\<close>

lemma catch_clause_malformed: "catch_clause (Error malformed_msg) = Error malformed_msg"
  by (simp add: malformed_msg_def)

lemma catch_clause_empty: "catch_clause (Error empty_story_msg) = Error empty_story_msg"
  by (simp add: empty_story_msg_def)

lemma get_prop_array_obj:
  assumes "get_prop parsed k = Inr (Some v)"
  obtains kvs where "parsed = JObj kvs" and "map_of kvs k = Some v"
  using assms by (cases parsed) auto

lemma validate_parsed_equal:
  assumes "get_prop parsed ''storyParagraphs'' = Inr (Some (JArr ps))"
    and "get_prop parsed ''imagePrompts'' = Inr (Some (JArr qs))"
    and "ps \<noteq> []" and "length ps = length qs"
  shows "validate_parsed parsed = Inr parsed"
  using assms by (auto simp: validate_parsed_def Let_def)

lemma validate_parsed_truncates:
  assumes "get_prop parsed ''storyParagraphs'' = Inr (Some (JArr ps))"
    and "get_prop parsed ''imagePrompts'' = Inr (Some (JArr qs))"
    and "ps \<noteq> []" and "qs \<noteq> []" and "length ps \<noteq> length qs"
  shows "validate_parsed parsed =
           Inr (set_prop (set_prop parsed ''storyParagraphs''
                  (JArr (take (min (length ps) (length qs)) ps)))
                  ''imagePrompts'' (JArr (take (min (length ps) (length qs)) qs)))"
  using assms by (simp add: validate_parsed_def Let_def)

lemma validate_parsed_success:
  assumes "validate_parsed parsed = Inr r"
  shows "\<exists>ps qs. get_prop r ''storyParagraphs'' = Inr (Some (JArr ps))
           \<and> get_prop r ''imagePrompts'' = Inr (Some (JArr qs))
           \<and> length ps = length qs \<and> 0 < length ps"
proof -
  from assms obtain sp ip where
      sp: "get_prop parsed ''storyParagraphs'' = Inr sp"
    and ip: "get_prop parsed ''imagePrompts'' = Inr ip"
    by (auto simp: validate_parsed_def split: sum.splits)
  from assms sp ip have arr: "isArray sp" "isArray ip"
    by (auto simp: validate_parsed_def split: if_splits)
  then obtain ps qs where spv: "sp = Some (JArr ps)" and ipv: "ip = Some (JArr qs)"
    by (auto elim!: isArray.elims)
  from sp spv obtain kvs where obj: "parsed = JObj kvs"
    by (auto elim: get_prop_array_obj)
  from assms sp ip spv ipv have ne: "ps \<noteq> []" "qs \<noteq> []"
    by (auto simp: validate_parsed_def split: if_splits)
  show ?thesis
  proof (cases "length ps = length qs")
    case True
    with sp ip spv ipv ne have "validate_parsed parsed = Inr parsed"
      by (simp add: validate_parsed_equal)
    with assms have "r = parsed" by simp
    with sp ip spv ipv True ne show ?thesis by simp
  next
    case False
    let ?m = "min (length ps) (length qs)"
    from sp ip spv ipv ne False assms
    have r: "r = set_prop (set_prop parsed ''storyParagraphs'' (JArr (take ?m ps)))
                 ''imagePrompts'' (JArr (take ?m qs))"
      by (simp add: validate_parsed_truncates)
    from ip ipv obj have "map_of kvs ''imagePrompts'' = Some (JArr qs)" by simp
    with r obj ne show ?thesis
      by (simp add: update_conv')
  qed
qed

text \<open>
  C1. Whenever \<^verbatim>\<open>parseAndValidateStoryResponse\<close> returns (does not throw), the
  \<^verbatim>\<open>storyParagraphs\<close> and \<^verbatim>\<open>imagePrompts\<close> of the returned value are arrays of one
  length, and that length is not zero. This holds for every response text and whatever
  \<^verbatim>\<open>JSON.parse\<close> makes of it.
\<close>

theorem parse_result_invariant:
  assumes "parseAndValidateStoryResponse JSON_parse responseText = Inr r"
  shows "\<exists>ps qs. get_prop r ''storyParagraphs'' = Inr (Some (JArr ps))
           \<and> get_prop r ''imagePrompts'' = Inr (Some (JArr qs))
           \<and> length ps = length qs \<and> 0 < length ps"
proof -
  from assms obtain parsed where "validate_parsed parsed = Inr r"
    by (auto simp: parseAndValidateStoryResponse_def Let_def split: sum.splits)
  then show ?thesis by (rule validate_parsed_success)
qed

theorem parse_result_invariant_witness:
  "parseAndValidateStoryResponse (parse_table [(''A'', response_3_2)]) '' A '' =
     Inr (JObj [(''storyTitle'', JStr ''The Kite''),
                (''storyParagraphs'', JArr [JStr ''p1'', JStr ''p2'']),
                (''imagePrompts'', JArr [JStr ''q1'', JStr ''q2''])])
   \<and> (\<exists>ps qs. get_prop (JObj [(''storyTitle'', JStr ''The Kite''),
                (''storyParagraphs'', JArr [JStr ''p1'', JStr ''p2'']),
                (''imagePrompts'', JArr [JStr ''q1'', JStr ''q2''])]) ''storyParagraphs''
                 = Inr (Some (JArr ps))
          \<and> get_prop (JObj [(''storyTitle'', JStr ''The Kite''),
                (''storyParagraphs'', JArr [JStr ''p1'', JStr ''p2'']),
                (''imagePrompts'', JArr [JStr ''q1'', JStr ''q2''])]) ''imagePrompts''
                 = Inr (Some (JArr qs))
          \<and> length ps = length qs \<and> 0 < length ps)"
proof -
  have run: "parseAndValidateStoryResponse (parse_table [(''A'', response_3_2)]) '' A '' =
     Inr (JObj [(''storyTitle'', JStr ''The Kite''),
                (''storyParagraphs'', JArr [JStr ''p1'', JStr ''p2'']),
                (''imagePrompts'', JArr [JStr ''q1'', JStr ''q2''])])"
    by (simp add: parseAndValidateStoryResponse_def parse_table_def response_3_2_def
        validate_parsed_def trim_def is_space_def Let_def)
  from parse_result_invariant [OF run] run show ?thesis by simp
qed

text \<open>
  C2. When the parsed response has \<open>m\<close> paragraphs and \<open>n\<close> prompts, \<open>m\<close> and \<open>n\<close> different
  and neither zero, validation succeeds, both lists of the result have length
  \<open>min m n\<close>, and each is a prefix of the list it comes from.
\<close>

theorem truncation_law:
  assumes parse: "JSON_parse (trim responseText) = Inr parsed"
    and sp: "get_prop parsed ''storyParagraphs'' = Inr (Some (JArr ps))"
    and ip: "get_prop parsed ''imagePrompts'' = Inr (Some (JArr qs))"
    and ne: "length ps \<noteq> length qs"
    and pos: "0 < length ps" "0 < length qs"
  shows "\<exists>r ps' qs'. parseAndValidateStoryResponse JSON_parse responseText = Inr r
           \<and> get_prop r ''storyParagraphs'' = Inr (Some (JArr ps'))
           \<and> get_prop r ''imagePrompts'' = Inr (Some (JArr qs'))
           \<and> length ps' = min (length ps) (length qs)
           \<and> length qs' = min (length ps) (length qs)
           \<and> prefix ps' ps \<and> prefix qs' qs"
proof -
  let ?m = "min (length ps) (length qs)"
  let ?r = "set_prop (set_prop parsed ''storyParagraphs'' (JArr (take ?m ps)))
              ''imagePrompts'' (JArr (take ?m qs))"
  from sp obtain kvs where obj: "parsed = JObj kvs"
    by (auto elim: get_prop_array_obj)
  from sp ip ne pos have "validate_parsed parsed = Inr ?r"
    by (simp add: validate_parsed_truncates)
  with parse have run: "parseAndValidateStoryResponse JSON_parse responseText = Inr ?r"
    by (simp add: parseAndValidateStoryResponse_def)
  from ip obj have "map_of kvs ''imagePrompts'' = Some (JArr qs)" by simp
  with obj have fields:
    "get_prop ?r ''storyParagraphs'' = Inr (Some (JArr (take ?m ps)))"
    "get_prop ?r ''imagePrompts'' = Inr (Some (JArr (take ?m qs)))"
    by (simp_all add: update_conv')
  have "length (take ?m ps) = ?m" "length (take ?m qs) = ?m"
    by simp_all
  moreover have "prefix (take ?m ps) ps" "prefix (take ?m qs) qs"
    by (simp_all add: take_is_prefix)
  ultimately show ?thesis using run fields by blast
qed

theorem truncation_law_witness:
  "\<exists>r ps' qs'. parseAndValidateStoryResponse (parse_table [(''A'', response_3_2)]) ''A'' = Inr r
      \<and> get_prop r ''storyParagraphs'' = Inr (Some (JArr ps'))
      \<and> get_prop r ''imagePrompts'' = Inr (Some (JArr qs'))
      \<and> length ps' = 2 \<and> length qs' = 2
      \<and> prefix ps' [JStr ''p1'', JStr ''p2'', JStr ''p3'']
      \<and> prefix qs' [JStr ''q1'', JStr ''q2'']"
proof -
  have parse: "parse_table [(''A'', response_3_2)] (trim ''A'') = Inr response_3_2"
    by (simp add: parse_table_def trim_def is_space_def)
  have sp: "get_prop response_3_2 ''storyParagraphs''
              = Inr (Some (JArr [JStr ''p1'', JStr ''p2'', JStr ''p3'']))"
    by (simp add: response_3_2_def)
  have ip: "get_prop response_3_2 ''imagePrompts'' = Inr (Some (JArr [JStr ''q1'', JStr ''q2'']))"
    by (simp add: response_3_2_def)
  from truncation_law [where JSON_parse = "parse_table [(''A'', response_3_2)]"
      and responseText = "''A''", OF parse sp ip]
  show ?thesis by (simp add: numeral_2_eq_2)
qed

text \<open>
  C3, as the code has it. Let the response parse to a value. When that value is not
  \<^verbatim>\<open>null\<close> and one of the two fields is missing or is not an array, validation throws
  the malformed-response error. When both fields are arrays and one of them is empty
  (also when only one is), it throws the empty-story error, which is another error.
  When the value is \<^verbatim>\<open>null\<close> it throws the could-not-understand error. In none of
  these cases does it return a result, truncated or not.
\<close>

theorem rejection_law:
  assumes parse: "JSON_parse (trim responseText) = Inr parsed"
  shows "(\<forall>x y. get_prop parsed ''storyParagraphs'' = Inr x
              \<and> get_prop parsed ''imagePrompts'' = Inr y
              \<and> (\<not> isArray x \<or> \<not> isArray y)
            \<longrightarrow> parseAndValidateStoryResponse JSON_parse responseText
                  = Inl (Error malformed_msg))
       \<and> (\<forall>x y. get_prop parsed ''storyParagraphs'' = Inr x
              \<and> get_prop parsed ''imagePrompts'' = Inr y
              \<and> isArray x \<and> isArray y \<and> (elems x = [] \<or> elems y = [])
            \<longrightarrow> parseAndValidateStoryResponse JSON_parse responseText
                  = Inl (Error empty_story_msg))
       \<and> (parsed = JNull
            \<longrightarrow> parseAndValidateStoryResponse JSON_parse responseText
                  = Inl (Error not_understood_msg))"
proof (intro conjI allI impI)
  fix x y
  assume "get_prop parsed ''storyParagraphs'' = Inr x
        \<and> get_prop parsed ''imagePrompts'' = Inr y \<and> (\<not> isArray x \<or> \<not> isArray y)"
  then have "validate_parsed parsed = Inl (Error malformed_msg)"
    by (auto simp: validate_parsed_def)
  with parse show "parseAndValidateStoryResponse JSON_parse responseText
                     = Inl (Error malformed_msg)"
    by (simp add: parseAndValidateStoryResponse_def catch_clause_malformed del: catch_clause.simps)
next
  fix x y
  assume h: "get_prop parsed ''storyParagraphs'' = Inr x
        \<and> get_prop parsed ''imagePrompts'' = Inr y
        \<and> isArray x \<and> isArray y \<and> (elems x = [] \<or> elems y = [])"
  then have "truthy x" "truthy y"
    by (auto elim!: isArray.elims)
  with h have "validate_parsed parsed = Inl (Error empty_story_msg)"
    by (auto simp: validate_parsed_def Let_def)
  with parse show "parseAndValidateStoryResponse JSON_parse responseText
                     = Inl (Error empty_story_msg)"
    by (simp add: parseAndValidateStoryResponse_def catch_clause_empty del: catch_clause.simps)
next
  assume "parsed = JNull"
  then have "validate_parsed parsed = Inl (Error (null_read_msg ''storyParagraphs''))"
    by (simp add: validate_parsed_def)
  moreover have "catch_clause (Error (null_read_msg ''storyParagraphs''))
                   = Error not_understood_msg"
    by (simp add: null_read_msg_def)
  ultimately show "parseAndValidateStoryResponse JSON_parse responseText
                     = Inl (Error not_understood_msg)"
    using parse by (simp add: parseAndValidateStoryResponse_def del: catch_clause.simps)
qed

theorem rejection_law_witness:
  "parseAndValidateStoryResponse (parse_table [(''B'', response_no_prompts)]) ''B''
     = Inl (Error malformed_msg)
   \<and> parseAndValidateStoryResponse (parse_table [(''C'', response_0_1)]) ''C''
     = Inl (Error empty_story_msg)
   \<and> parseAndValidateStoryResponse (parse_table [(''D'', JNull)]) ''D''
     = Inl (Error not_understood_msg)"
proof -
  have pB: "parse_table [(''B'', response_no_prompts)] (trim ''B'') = Inr response_no_prompts"
    and pC: "parse_table [(''C'', response_0_1)] (trim ''C'') = Inr response_0_1"
    and pD: "parse_table [(''D'', JNull)] (trim ''D'') = Inr JNull"
    by (simp_all add: parse_table_def trim_def is_space_def)
  have gB: "get_prop response_no_prompts ''storyParagraphs'' = Inr (Some (JArr [JStr ''p1'']))
          \<and> get_prop response_no_prompts ''imagePrompts'' = Inr None
          \<and> (\<not> isArray (Some (JArr [JStr ''p1''])) \<or> \<not> isArray None)"
    by (simp add: response_no_prompts_def)
  have gC: "get_prop response_0_1 ''storyParagraphs'' = Inr (Some (JArr []))
          \<and> get_prop response_0_1 ''imagePrompts'' = Inr (Some (JArr [JStr ''q1'']))
          \<and> isArray (Some (JArr [])) \<and> isArray (Some (JArr [JStr ''q1'']))
          \<and> (elems (Some (JArr [])) = [] \<or> elems (Some (JArr [JStr ''q1''])) = [])"
    by (simp add: response_0_1_def)
  from rejection_law [where JSON_parse = "parse_table [(''B'', response_no_prompts)]"
      and responseText = "''B''", OF pB] gB
  have "parseAndValidateStoryResponse (parse_table [(''B'', response_no_prompts)]) ''B''
          = Inl (Error malformed_msg)"
    by blast
  moreover from rejection_law [where JSON_parse = "parse_table [(''C'', response_0_1)]"
      and responseText = "''C''", OF pC] gC
  have "parseAndValidateStoryResponse (parse_table [(''C'', response_0_1)]) ''C''
          = Inl (Error empty_story_msg)"
    by blast
  moreover from rejection_law [where JSON_parse = "parse_table [(''D'', JNull)]"
      and responseText = "''D''", OF pD]
  have "parseAndValidateStoryResponse (parse_table [(''D'', JNull)]) ''D''
          = Inl (Error not_understood_msg)"
    by blast
  ultimately show ?thesis by blast
qed

text \<open>
  The claim as the specification words it fails: with no paragraphs and one prompt the
  error thrown is the empty-story error, not the malformed-response error.
\<close>

theorem rejection_law_counterexample:
  "parseAndValidateStoryResponse (parse_table [(''C'', response_0_1)]) ''C''
     = Inl (Error empty_story_msg)
   \<and> parseAndValidateStoryResponse (parse_table [(''C'', response_0_1)]) ''C''
     \<noteq> Inl (Error malformed_msg)"
  by (simp add: parseAndValidateStoryResponse_def parse_table_def response_0_1_def
      validate_parsed_def trim_def is_space_def Let_def empty_story_msg_def malformed_msg_def)

section \<open>Properties of the callbacks\<close>

lemma length_mapi: "length (mapi f xs) = length xs"
  by (simp add: mapi_def)

lemma nth_mapi: "i < length xs \<Longrightarrow> mapi f xs ! i = f (xs ! i) i"
  by (simp add: mapi_def)

lemma mapi_at:
  "mapi (\<lambda>x i. if i \<noteq> a then x else g x) xs = (if a < length xs then xs[a := g (xs ! a)] else xs)"
  by (rule nth_equalityI) (auto simp: length_mapi nth_mapi nth_list_update)

lemma update_scene_eq:
  "update_scene a i f prev =
     (if a < length prev
      then prev[a := (prev ! a)\<lparr>scenes := (scenes (prev ! a))[i := f (scenes (prev ! a) ! i)]\<rparr>]
      else prev)"
  unfolding update_scene_def by (rule mapi_at)

lemma length_write_image: "length (write_image img i scs) = length scs"
  by (simp add: write_image_def)

lemma write_image_out_of_range: "length scs \<le> i \<Longrightarrow> write_image img i scs = scs"
  by (simp add: write_image_def)

lemma length_onImageGenerated: "length (onImageGenerated V img i prev) = length prev"
  by (simp add: onImageGenerated_def)

lemma onNewStoryPartsGenerated_eq:
  "onNewStoryPartsGenerated a mode ps qs (n, s) =
     (length ps,
      s\<lparr>storyHistory :=
           (if a < length (storyHistory s)
            then (storyHistory s)[a := (storyHistory s ! a)
                   \<lparr>scenes := scenes (storyHistory s ! a) @ scene_placeholders ps qs,
                    storyMode := mode\<rparr>]
            else storyHistory s)\<rparr>)"
  by (simp add: onNewStoryPartsGenerated_def setStoryHistory_def Let_def mapi_at)

lemma onNewImageGenerated_eq:
  "onNewImageGenerated a img index (n, s) =
     (n,
      s\<lparr>storyHistory :=
           (if a < length (storyHistory s)
            then (storyHistory s)[a :=
                   (let story = storyHistory s ! a;
                        absoluteIndex = int (length (scenes story)) - int n + int index
                    in if 0 \<le> absoluteIndex
                       then story\<lparr>scenes := write_image img (nat absoluteIndex) (scenes story)\<rparr>
                       else story\<lparr>scenes := scenes story\<rparr>)]
            else storyHistory s)\<rparr>)"
  by (simp add: onNewImageGenerated_def setStoryHistory_def Let_def mapi_at)

text \<open>
  The frame of the callbacks on values. Each of the four callbacks gives a collection
  of the same length, and leaves every version that it does not target as it was: the
  callbacks of \<^verbatim>\<open>handleGenerate\<close> leave every version whose id is not \<open>V\<close>, the
  callbacks of \<^verbatim>\<open>handleContinueStory\<close> leave every version at an index other than the
  active one.
\<close>

theorem callbacks_frame:
  "length (onStoryGenerated V ttl ps qs prev) = length prev
   \<and> length (onImageGenerated V img i prev) = length prev
   \<and> (\<forall>k<length prev. storyId (prev ! k) \<noteq> V \<longrightarrow>
         onStoryGenerated V ttl ps qs prev ! k = prev ! k
         \<and> onImageGenerated V img i prev ! k = prev ! k)
   \<and> length (storyHistory (snd (onNewStoryPartsGenerated a mode ps qs (n, s))))
        = length (storyHistory s)
   \<and> length (storyHistory (snd (onNewImageGenerated a img i (n, s))))
        = length (storyHistory s)
   \<and> (\<forall>k<length (storyHistory s). k \<noteq> a \<longrightarrow>
         storyHistory (snd (onNewStoryPartsGenerated a mode ps qs (n, s))) ! k
           = storyHistory s ! k
         \<and> storyHistory (snd (onNewImageGenerated a img i (n, s))) ! k
           = storyHistory s ! k)"
  by (simp add: onStoryGenerated_def onImageGenerated_def onNewStoryPartsGenerated_eq
      onNewImageGenerated_eq)

theorem callbacks_frame_witness:
  "onStoryGenerated 1700000100000 ''The Kite Returns'' [''p1''] [''q1'']
     (storyHistory app_generating) ! 0 = story_kite
   \<and> onImageGenerated 1700000100000 (Image ''data:image/png;base64,CCCC'') 0
       (storyHistory app_generating) ! 0 = story_kite
   \<and> storyHistory (snd (onNewStoryPartsGenerated 1 Extend [''p1''] [''q1'']
                          (0, app_generating))) ! 0 = story_kite
   \<and> storyHistory (snd (onNewImageGenerated 1 (Image ''data:image/png;base64,CCCC'') 0
                          (0, app_generating))) ! 0 = story_kite"
proof -
  have k: "0 < length (storyHistory app_generating)"
    and id: "storyId (storyHistory app_generating ! 0) \<noteq> 1700000100000"
    and other: "(0::nat) \<noteq> 1"
    and at0: "storyHistory app_generating ! 0 = story_kite"
    by (simp_all add: app_generating_def story_kite_def)
  from callbacks_frame [where V = 1700000100000 and ttl = "''The Kite Returns''"
      and ps = "[''p1'']" and qs = "[''q1'']" and prev = "storyHistory app_generating"
      and img = "Image ''data:image/png;base64,CCCC''" and i = 0 and a = 1 and mode = Extend
      and n = 0 and s = app_generating] k id other
  show ?thesis unfolding at0 [symmetric] by blast
qed

text \<open>
  When the ids of the collection are distinct, a callback of \<^verbatim>\<open>handleGenerate\<close> changes
  one version at most.
\<close>

lemma callbacks_target_one:
  assumes d: "distinct (map storyId prev)"
    and k: "k < length prev" and k': "k' < length prev"
    and ch: "onStoryGenerated V ttl ps qs prev ! k \<noteq> prev ! k
             \<or> onImageGenerated V img i prev ! k \<noteq> prev ! k"
    and ch': "onStoryGenerated V ttl ps qs prev ! k' \<noteq> prev ! k'
             \<or> onImageGenerated V img i prev ! k' \<noteq> prev ! k'"
  shows "k = k'"
proof -
  from ch k have "storyId (prev ! k) = V"
    by (auto simp: onStoryGenerated_def onImageGenerated_def split: if_splits)
  moreover from ch' k' have "storyId (prev ! k') = V"
    by (auto simp: onStoryGenerated_def onImageGenerated_def split: if_splits)
  ultimately have "map storyId prev ! k = map storyId prev ! k'"
    using k k' by simp
  moreover have "k < length (map storyId prev)" "k' < length (map storyId prev)"
    using k k' by simp_all
  ultimately show ?thesis
    using d nth_eq_iff_index_eq by blast
qed

text \<open>
  C10. An image callback whose index has no scene in the targeted version changes
  nothing at all. For \<^verbatim>\<open>handleGenerate\<close>: when every version of id \<open>V\<close> has no scene at
  \<open>imgIndex\<close>, the collection is returned as it is. For \<^verbatim>\<open>handleContinueStory\<close>: when the
  absolute index is negative or not below the number of scenes, the state is returned
  as it is; so it is while \<^verbatim>\<open>newSceneCount\<close> is still 0. The callbacks have no branch
  that throws.
\<close>

theorem out_of_range_image_skipped:
  "((\<forall>k<length prev. storyId (prev ! k) = V \<longrightarrow> length (scenes (prev ! k)) \<le> imgIndex)
      \<longrightarrow> onImageGenerated V img imgIndex prev = prev)
   \<and> ((a < length (storyHistory s) \<longrightarrow>
          int (length (scenes (storyHistory s ! a))) - int n + int index < 0
          \<or> int (length (scenes (storyHistory s ! a)))
               \<le> int (length (scenes (storyHistory s ! a))) - int n + int index)
      \<longrightarrow> onNewImageGenerated a img index (n, s) = (n, s))
   \<and> onNewImageGenerated a img index (0, s) = (0, s)"
proof (intro conjI impI)
  assume h: "\<forall>k<length prev. storyId (prev ! k) = V \<longrightarrow> length (scenes (prev ! k)) \<le> imgIndex"
  show "onImageGenerated V img imgIndex prev = prev"
  proof (rule nth_equalityI)
    show "length (onImageGenerated V img imgIndex prev) = length prev"
      by (rule length_onImageGenerated)
  next
    fix k assume "k < length (onImageGenerated V img imgIndex prev)"
    then have k: "k < length prev" by (simp add: length_onImageGenerated)
    with h show "onImageGenerated V img imgIndex prev ! k = prev ! k"
      by (simp add: onImageGenerated_def write_image_out_of_range)
  qed
next
  assume h: "a < length (storyHistory s) \<longrightarrow>
          int (length (scenes (storyHistory s ! a))) - int n + int index < 0
          \<or> int (length (scenes (storyHistory s ! a)))
               \<le> int (length (scenes (storyHistory s ! a))) - int n + int index"
  show "onNewImageGenerated a img index (n, s) = (n, s)"
  proof (cases "a < length (storyHistory s)")
    case False
    then show ?thesis by (simp add: onNewImageGenerated_eq)
  next
    case True
    with h show ?thesis
      by (auto simp: onNewImageGenerated_eq Let_def write_image_out_of_range list_update_same_conv)
  qed
next
  show "onNewImageGenerated a img index (0, s) = (0, s)"
    by (cases "a < length (storyHistory s)")
       (auto simp: onNewImageGenerated_eq Let_def write_image_out_of_range list_update_same_conv)
qed

theorem out_of_range_image_skipped_witness:
  "onImageGenerated 1700000100000 (Image ''data:image/png;base64,CCCC'') 0
     (storyHistory app_generating) = storyHistory app_generating
   \<and> onNewImageGenerated 0 (Image ''data:image/png;base64,CCCC'') 5 (1, app_kite)
       = (1, app_kite)
   \<and> onNewImageGenerated 0 (Image ''data:image/png;base64,CCCC'') 0 (0, app_kite)
       = (0, app_kite)"
proof -
  have h1: "\<forall>k<length (storyHistory app_generating).
              storyId (storyHistory app_generating ! k) = 1700000100000
              \<longrightarrow> length (scenes (storyHistory app_generating ! k)) \<le> 0"
    by (simp add: app_generating_def story_kite_def story_placeholder_def less_Suc_eq
        numeral_2_eq_2)
  have h2: "0 < length (storyHistory app_kite) \<longrightarrow>
          int (length (scenes (storyHistory app_kite ! 0))) - int 1 + int 5 < 0
          \<or> int (length (scenes (storyHistory app_kite ! 0)))
               \<le> int (length (scenes (storyHistory app_kite ! 0))) - int 1 + int 5"
    by (simp add: app_kite_def story_kite_def)
  from out_of_range_image_skipped [where V = 1700000100000
      and img = "Image ''data:image/png;base64,CCCC''" and imgIndex = 0
      and prev = "storyHistory app_generating" and a = 0 and s = app_kite and n = 1
      and index = 5] h1 h2
  have "onImageGenerated 1700000100000 (Image ''data:image/png;base64,CCCC'') 0
          (storyHistory app_generating) = storyHistory app_generating"
    and "onNewImageGenerated 0 (Image ''data:image/png;base64,CCCC'') 5 (1, app_kite)
          = (1, app_kite)"
    by blast+
  moreover from out_of_range_image_skipped [where img = "Image ''data:image/png;base64,CCCC''"
      and a = 0 and s = app_kite and index = 0]
  have "onNewImageGenerated 0 (Image ''data:image/png;base64,CCCC'') 0 (0, app_kite)
          = (0, app_kite)"
    by blast
  ultimately show ?thesis by blast
qed

section \<open>The image callback on scene objects: the write in place\<close>

lemma read_story_cong:
  assumes "\<forall>r\<in>set (refScenes story). h2 ! r = h1 ! r"
  shows "read_story h2 story = read_story h1 story"
  using assms by (simp add: read_story_def)

lemma read_history_cong:
  assumes "\<forall>r\<in>set (concat (map refScenes hist)). h2 ! r = h1 ! r"
  shows "read_history h2 hist = read_history h1 hist"
  using assms by (auto simp: read_history_def intro: read_story_cong)

lemma read_story_written:
  assumes d: "distinct (refScenes story)" and v: "\<forall>r\<in>set (refScenes story). r < length h"
    and i: "i < length (refScenes story)"
  shows "read_story (h[refScenes story ! i := (h ! (refScenes story ! i))\<lparr>sceneImage := img\<rparr>]) story
           = (read_story h story)\<lparr>scenes := write_image img i (scenes (read_story h story))\<rparr>"
proof -
  let ?refs = "refScenes story"
  let ?h1 = "h[?refs ! i := (h ! (?refs ! i))\<lparr>sceneImage := img\<rparr>]"
  have "map (\<lambda>r. ?h1 ! r) ?refs = (map (\<lambda>r. h ! r) ?refs)[i := (h ! (?refs ! i))\<lparr>sceneImage := img\<rparr>]"
  proof (rule nth_equalityI)
    show "length (map (\<lambda>r. ?h1 ! r) ?refs)
            = length ((map (\<lambda>r. h ! r) ?refs)[i := (h ! (?refs ! i))\<lparr>sceneImage := img\<rparr>])"
      by simp
  next
    fix j assume "j < length (map (\<lambda>r. ?h1 ! r) ?refs)"
    then have j: "j < length ?refs" by simp
    show "map (\<lambda>r. ?h1 ! r) ?refs ! j
            = (map (\<lambda>r. h ! r) ?refs)[i := (h ! (?refs ! i))\<lparr>sceneImage := img\<rparr>] ! j"
    proof (cases "j = i")
      case True
      with i v show ?thesis by simp
    next
      case False
      with d i j have "?refs ! j \<noteq> ?refs ! i"
        by (simp add: nth_eq_iff_index_eq)
      with False j i show ?thesis by simp
    qed
  qed
  with i show ?thesis
    by (simp add: read_story_def write_image_def)
qed

lemma onImageGenerated_store_refines:
  assumes d: "distinct (concat (map refScenes prev))"
    and v: "\<forall>r\<in>set (concat (map refScenes prev)). r < length h"
    and run: "onImageGenerated_store sid img i h prev = (h', new)"
  shows "new = prev \<and> length h' = length h
       \<and> (\<forall>r. r \<notin> set (concat (map refScenes prev)) \<longrightarrow> h' ! r = h ! r)
       \<and> read_history h' prev = onImageGenerated sid img i (read_history h prev)"
  using assms
proof (induction prev arbitrary: h h' new)
  case Nil
  then show ?case by (auto simp: read_history_def onImageGenerated_def)
next
  case (Cons story rest)
  let ?refs = "refScenes story"
  from Cons.prems(1) have ds: "distinct ?refs" and dr: "distinct (concat (map refScenes rest))"
    and disj: "set ?refs \<inter> set (concat (map refScenes rest)) = {}"
    by simp_all
  from Cons.prems(2) have vs: "\<forall>r\<in>set ?refs. r < length h"
    and vr: "\<forall>r\<in>set (concat (map refScenes rest)). r < length h"
    by simp_all
  show ?case
  proof (cases "refId story \<noteq> sid")
    case True
    obtain h2 rest2 where rec: "onImageGenerated_store sid img i h rest = (h2, rest2)"
      by (cases "onImageGenerated_store sid img i h rest")
    with Cons.prems(3) True have res: "h' = h2" "new = story # rest2" by simp_all
    from Cons.IH [OF dr vr rec]
    have ih: "rest2 = rest" "length h2 = length h"
      "\<forall>r. r \<notin> set (concat (map refScenes rest)) \<longrightarrow> h2 ! r = h ! r"
      "read_history h2 rest = onImageGenerated sid img i (read_history h rest)"
      by simp_all
    from ih(3) disj have "\<forall>r\<in>set ?refs. h2 ! r = h ! r" by blast
    then have "read_story h2 story = read_story h story" by (rule read_story_cong)
    moreover have "storyId (read_story h story) \<noteq> sid"
      using True by (simp add: read_story_def)
    ultimately have "read_history h2 (story # rest)
                       = onImageGenerated sid img i (read_history h (story # rest))"
      using ih(4) by (simp add: read_history_def onImageGenerated_def)
    with res ih show ?thesis by simp
  next
    case False
    define h1 where "h1 = (if i < length ?refs
                           then h[?refs ! i := (h ! (?refs ! i))\<lparr>sceneImage := img\<rparr>] else h)"
    have l1: "length h1 = length h" by (simp add: h1_def)
    obtain h2 rest2 where rec: "onImageGenerated_store sid img i h1 rest = (h2, rest2)"
      by (cases "onImageGenerated_store sid img i h1 rest")
    with Cons.prems(3) False have res: "h' = h2" "new = story\<lparr>refScenes := ?refs\<rparr> # rest2"
      by (simp_all add: Let_def h1_def)
    from vr l1 have vr1: "\<forall>r\<in>set (concat (map refScenes rest)). r < length h1" by simp
    from Cons.IH [OF dr vr1 rec]
    have ih: "rest2 = rest" "length h2 = length h1"
      "\<forall>r. r \<notin> set (concat (map refScenes rest)) \<longrightarrow> h2 ! r = h1 ! r"
      "read_history h2 rest = onImageGenerated sid img i (read_history h1 rest)"
      by simp_all
    have out1: "h1 ! r = h ! r" if "r \<notin> set ?refs" for r
    proof (cases "i < length ?refs")
      case True
      then have "?refs ! i \<in> set ?refs" by simp
      with that have "?refs ! i \<noteq> r" by blast
      with True show ?thesis by (simp add: h1_def)
    next
      case False
      then show ?thesis by (simp add: h1_def)
    qed
    from disj have "\<forall>r\<in>set (concat (map refScenes rest)). h1 ! r = h ! r"
      using out1 by blast
    then have rest_same: "read_history h1 rest = read_history h rest"
      by (rule read_history_cong)
    from ih(3) disj have "\<forall>r\<in>set ?refs. h2 ! r = h1 ! r" by blast
    then have s2: "read_story h2 story = read_story h1 story" by (rule read_story_cong)
    have s1: "read_story h1 story
                = (read_story h story)\<lparr>scenes := write_image img i (scenes (read_story h story))\<rparr>"
    proof (cases "i < length ?refs")
      case True
      then show ?thesis
        using read_story_written [OF ds vs True, of img] by (simp add: h1_def)
    next
      case False
      then show ?thesis
        by (simp add: h1_def read_story_def write_image_def)
    qed
    have sid: "storyId (read_story h story) = sid"
      using False by (simp add: read_story_def)
    have "read_history h2 (story # rest)
            = onImageGenerated sid img i (read_history h (story # rest))"
      using s1 s2 sid ih(4) rest_same by (simp add: read_history_def onImageGenerated_def)
    moreover have "\<forall>r. r \<notin> set (concat (map refScenes (story # rest))) \<longrightarrow> h2 ! r = h ! r"
      using ih(3) out1 by simp
    ultimately show ?thesis using res ih l1 by simp
  qed
qed

text \<open>
  C9 fails on scene objects. Let the addresses in the collection be distinct and in the
  store, and let the version at index \<open>k\<close> have the id \<open>sid\<close> and a scene at index \<open>i\<close>.
  The image callback returns a collection of the same addresses, which reads as the
  value model says. But the old collection, read after the callback, reads the same:
  the image has been written into the scene object that the old collection holds, and
  the scene \<open>i\<close> of its version \<open>k\<close> has the new image.
\<close>

theorem image_callback_writes_in_place:
  assumes d: "distinct (concat (map refScenes prev))"
    and v: "\<forall>r\<in>set (concat (map refScenes prev)). r < length h"
    and run: "onImageGenerated_store sid img i h prev = (h', new)"
    and k: "k < length prev" and id: "refId (prev ! k) = sid"
    and i: "i < length (refScenes (prev ! k))"
  shows "new = prev
       \<and> read_history h' new = onImageGenerated sid img i (read_history h prev)
       \<and> read_history h' prev = onImageGenerated sid img i (read_history h prev)
       \<and> sceneImage (scenes (read_history h' prev ! k) ! i) = img"
proof -
  from onImageGenerated_store_refines [OF d v run]
  have same: "new = prev"
    and old: "read_history h' prev = onImageGenerated sid img i (read_history h prev)"
    by simp_all
  have "onImageGenerated sid img i (read_history h prev) ! k
          = (read_story h (prev ! k))
              \<lparr>scenes := write_image img i (scenes (read_story h (prev ! k)))\<rparr>"
    using k id by (simp add: onImageGenerated_def read_history_def read_story_def)
  with i have "sceneImage (scenes (onImageGenerated sid img i (read_history h prev) ! k) ! i) = img"
    by (simp add: write_image_def read_story_def)
  with same old show ?thesis by simp
qed

theorem image_callback_writes_in_place_witness:
  "sceneImage (scenes (read_history store_two history_two ! 0) ! 0) = Undefined
   \<and> (case onImageGenerated_store 1700000100000 (Image ''data:image/png;base64,CCCC'') 0
             store_two history_two of
        (h, new) \<Rightarrow>
          new = history_two
          \<and> sceneImage (scenes (read_history h history_two ! 0) ! 0)
              = Image ''data:image/png;base64,CCCC'')
   \<and> (case regenerate_store 0 0 ''data:image/png;base64,CCCC'' store_two history_two of
        Some (h, new) \<Rightarrow>
          sceneImage (scenes (read_history h history_two ! 0) ! 0) = Undefined
          \<and> sceneImage (scenes (read_history h new ! 0) ! 0)
              = Image ''data:image/png;base64,CCCC''
      | None \<Rightarrow> False)"
proof -
  obtain h new where run:
    "onImageGenerated_store 1700000100000 (Image ''data:image/png;base64,CCCC'') 0
       store_two history_two = (h, new)"
    by (cases "onImageGenerated_store 1700000100000 (Image ''data:image/png;base64,CCCC'') 0
       store_two history_two")
  have d: "distinct (concat (map refScenes history_two))"
    and v: "\<forall>r\<in>set (concat (map refScenes history_two)). r < length store_two"
    and k: "0 < length history_two"
    and id: "refId (history_two ! 0) = 1700000100000"
    and i: "0 < length (refScenes (history_two ! 0))"
    by (simp_all add: history_two_def store_two_def)
  from image_callback_writes_in_place [OF d v run k id i]
  have "new = history_two
      \<and> sceneImage (scenes (read_history h history_two ! 0) ! 0)
          = Image ''data:image/png;base64,CCCC''"
    by blast
  moreover have "sceneImage (scenes (read_history store_two history_two ! 0) ! 0) = Undefined"
    by (simp add: read_history_def read_story_def store_two_def history_two_def
        scene_awaited_def)
  moreover have "case regenerate_store 0 0 ''data:image/png;base64,CCCC'' store_two history_two of
        Some (h, new) \<Rightarrow>
          sceneImage (scenes (read_history h history_two ! 0) ! 0) = Undefined
          \<and> sceneImage (scenes (read_history h new ! 0) ! 0)
              = Image ''data:image/png;base64,CCCC''
      | None \<Rightarrow> False"
    by (simp add: regenerate_store_def Let_def read_history_def read_story_def store_two_def
        history_two_def scene_awaited_def)
  ultimately show ?thesis using run by simp
qed

text \<open>
  The updater of \<^verbatim>\<open>handleRegenerateImage\<close> copies the scene: the old collection reads
  after it as before.
\<close>

lemma regenerate_copies_scene:
  assumes v: "\<forall>r\<in>set (concat (map refScenes prev)). r < length h"
    and run: "regenerate_store a sceneIndex newImage h prev = Some (h', new)"
  shows "read_history h' prev = read_history h prev"
proof (rule read_history_cong)
  from run have "h' = h \<or> (\<exists>copy. h' = h @ [copy])"
    by (auto simp: regenerate_store_def Let_def split: if_splits)
  with v show "\<forall>r\<in>set (concat (map refScenes prev)). h' ! r = h ! r"
    by (auto simp: nth_append)
qed

section \<open>Properties of the follow-up actions\<close>

text \<open>
  C7, as the code has it. Let the handler pass its guards: a story is active, the first
  character is there, and the scene has a truthy image. Then the handler runs; while the
  remote call is awaited the scene has \<^verbatim>\<open>isVideoPromptLoading\<close> true and its
  \<^verbatim>\<open>videoPrompt\<close> is \<^verbatim>\<open>undefined\<close> already; at the end the scene has the flag false. When the remote call fails, the \<^verbatim>\<open>videoPrompt\<close> of the scene is \<^verbatim>\<open>undefined\<close>
  at the end (the handler clears it when it starts) and the message of the failure is
  in \<^verbatim>\<open>error\<close>. When the call gives a text, the \<^verbatim>\<open>videoPrompt\<close> is that text.
\<close>

theorem video_prompt_effect:
  assumes act: "activeStoryIndex s = Some a"
    and ch: "character1 s \<noteq> None"
    and a: "a < length (storyHistory s)"
    and i: "sceneIndex < length (scenes (storyHistory s ! a))"
    and img: "truthy_image (sceneImage (scenes (storyHistory s ! a) ! sceneIndex))"
  shows "\<exists>s1 s2. handleGenerateVideoPrompt t generateVideoPrompt sceneIndex s = Ran s1 s2
     \<and> isVideoPromptLoading (scenes (storyHistory s1 ! a) ! sceneIndex) = Some True
     \<and> videoPrompt (scenes (storyHistory s1 ! a) ! sceneIndex) = None
     \<and> isVideoPromptLoading (scenes (storyHistory s2 ! a) ! sceneIndex) = Some False
     \<and> (\<forall>err. generateVideoPrompt (paragraph (scenes (storyHistory s ! a) ! sceneIndex))
                 (sceneImage (scenes (storyHistory s ! a) ! sceneIndex)) = Inl err
           \<longrightarrow> videoPrompt (scenes (storyHistory s2 ! a) ! sceneIndex) = None
               \<and> error s2 = Some (message_or err (t ''errorVideoPrompt'')))
     \<and> (\<forall>txt. generateVideoPrompt (paragraph (scenes (storyHistory s ! a) ! sceneIndex))
                 (sceneImage (scenes (storyHistory s ! a) ! sceneIndex)) = Inr txt
           \<longrightarrow> videoPrompt (scenes (storyHistory s2 ! a) ! sceneIndex) = Some txt
               \<and> error s2 = None)"
  using assms
  by (simp add: handleGenerateVideoPrompt_def Let_def setStoryHistory_def update_scene_eq
      split: sum.splits)

theorem video_prompt_effect_witness:
  "(\<exists>s1 s2. handleGenerateVideoPrompt t_en video_service_down 0 app_kite = Ran s1 s2
      \<and> isVideoPromptLoading (scenes (storyHistory s1 ! 0) ! 0) = Some True
      \<and> videoPrompt (scenes (storyHistory s1 ! 0) ! 0) = None
      \<and> isVideoPromptLoading (scenes (storyHistory s2 ! 0) ! 0) = Some False
      \<and> videoPrompt (scenes (storyHistory s2 ! 0) ! 0) = None
      \<and> error s2 = Some ''503 Service Unavailable'')
   \<and> (\<exists>s1 s2. handleGenerateVideoPrompt t_en video_service_up 0 app_kite = Ran s1 s2
      \<and> isVideoPromptLoading (scenes (storyHistory s1 ! 0) ! 0) = Some True
      \<and> videoPrompt (scenes (storyHistory s1 ! 0) ! 0) = None
      \<and> isVideoPromptLoading (scenes (storyHistory s2 ! 0) ! 0) = Some False
      \<and> videoPrompt (scenes (storyHistory s2 ! 0) ! 0) = Some ''Slow pan over the hill''
      \<and> error s2 = None)"
proof -
  have act: "activeStoryIndex app_kite = Some 0"
    and ch: "character1 app_kite \<noteq> None"
    and a: "0 < length (storyHistory app_kite)"
    and i: "0 < length (scenes (storyHistory app_kite ! 0))"
    and img: "truthy_image (sceneImage (scenes (storyHistory app_kite ! 0) ! 0))"
    by (simp_all add: app_kite_def story_kite_def scene_ready_def)
  have down: "video_service_down (paragraph (scenes (storyHistory app_kite ! 0) ! 0))
                (sceneImage (scenes (storyHistory app_kite ! 0) ! 0))
              = Inl (Error ''503 Service Unavailable'')"
    by (simp add: video_service_down_def)
  have up: "video_service_up (paragraph (scenes (storyHistory app_kite ! 0) ! 0))
                (sceneImage (scenes (storyHistory app_kite ! 0) ! 0))
              = Inr ''Slow pan over the hill''"
    by (simp add: video_service_up_def)
  from video_prompt_effect [OF act ch a i img, of t_en video_service_down] down
  have failing: "\<exists>s1 s2. handleGenerateVideoPrompt t_en video_service_down 0 app_kite = Ran s1 s2
      \<and> isVideoPromptLoading (scenes (storyHistory s1 ! 0) ! 0) = Some True
      \<and> videoPrompt (scenes (storyHistory s1 ! 0) ! 0) = None
      \<and> isVideoPromptLoading (scenes (storyHistory s2 ! 0) ! 0) = Some False
      \<and> videoPrompt (scenes (storyHistory s2 ! 0) ! 0) = None
      \<and> error s2 = Some ''503 Service Unavailable''"
    by force
  from video_prompt_effect [OF act ch a i img, of t_en video_service_up] up
  have answering: "\<exists>s1 s2. handleGenerateVideoPrompt t_en video_service_up 0 app_kite = Ran s1 s2
      \<and> isVideoPromptLoading (scenes (storyHistory s1 ! 0) ! 0) = Some True
      \<and> videoPrompt (scenes (storyHistory s1 ! 0) ! 0) = None
      \<and> isVideoPromptLoading (scenes (storyHistory s2 ! 0) ! 0) = Some False
      \<and> videoPrompt (scenes (storyHistory s2 ! 0) ! 0) = Some ''Slow pan over the hill''
      \<and> error s2 = None"
    by force
  from failing answering show ?thesis by (rule conjI)
qed

text \<open>
  The claim as the specification words it fails: a scene that had a video prompt has
  none after a failed call, and a scene whose prompt was the empty string (for which
  the page offers the action) has \<^verbatim>\<open>undefined\<close> after a failed call.
\<close>

theorem video_prompt_failure_counterexample:
  "(case handleGenerateVideoPrompt t_en video_service_down 0 app_kite of
      Ran s1 s2 \<Rightarrow>
        videoPrompt (scenes (storyHistory app_kite ! 0) ! 0)
          = Some ''The kite climbs while the camera tilts up''
        \<and> videoPrompt (scenes (storyHistory s2 ! 0) ! 0) = None
    | Returned \<Rightarrow> False
    | Uncaught \<Rightarrow> False)
   \<and> (case handleGenerateVideoPrompt t_en video_service_down 0 app_kite_blank of
      Ran s1 s2 \<Rightarrow>
        videoPrompt (scenes (storyHistory app_kite_blank ! 0) ! 0) = Some []
        \<and> videoPrompt (scenes (storyHistory s2 ! 0) ! 0) = None
    | Returned \<Rightarrow> False
    | Uncaught \<Rightarrow> False)"
  by (simp add: handleGenerateVideoPrompt_def Let_def setStoryHistory_def update_scene_eq
      app_kite_blank_def app_kite_def story_kite_def scene_ready_def video_service_down_def)

text \<open>
  C8. Let the handler pass its guards: a story is active, a scene is open in the edit
  dialogue, the first character is there, the instruction is not empty, and the scene
  has a truthy image. Then the handler runs. When the remote call gives an image, the
  collection at the end is the old one with the image of that one scene replaced. When
  the remote call fails, the collection at the end is the old one, and the message of
  the failure is in \<^verbatim>\<open>error\<close>.
\<close>

theorem edit_image_effect:
  assumes act: "activeStoryIndex s = Some a"
    and ed: "editingSceneIndex s = Some e"
    and ch: "character1 s \<noteq> None"
    and pr: "editPrompt \<noteq> []"
    and a: "a < length (storyHistory s)"
    and e: "e < length (scenes (storyHistory s ! a))"
    and img: "truthy_image (sceneImage (scenes (storyHistory s ! a) ! e))"
  shows "\<exists>s1 s2. handleEditImage t editImage editPrompt s = Ran s1 s2
     \<and> (\<forall>newImage. editImage (sceneImage (scenes (storyHistory s ! a) ! e)) editPrompt
                       = Inr newImage
           \<longrightarrow> storyHistory s2 = (storyHistory s)[a := (storyHistory s ! a)
                   \<lparr>scenes := (scenes (storyHistory s ! a))[e :=
                       (scenes (storyHistory s ! a) ! e)\<lparr>sceneImage := Image newImage\<rparr>]\<rparr>]
               \<and> sceneImage (scenes (storyHistory s2 ! a) ! e) = Image newImage
               \<and> error s2 = None)
     \<and> (\<forall>err. editImage (sceneImage (scenes (storyHistory s ! a) ! e)) editPrompt = Inl err
           \<longrightarrow> storyHistory s2 = storyHistory s
               \<and> error s2 = Some (message_or err (t ''errorEditImage'')))"
  using assms
  by (simp add: handleEditImage_def Let_def setStoryHistory_def update_scene_eq
      handleCloseEditModal_def split: sum.splits)

theorem edit_image_effect_witness:
  "(\<exists>s1 s2. handleEditImage t_en edit_service_down ''make the sky pink'' app_kite = Ran s1 s2
      \<and> storyHistory s2 = storyHistory app_kite
      \<and> error s2 = Some ''Image editing failed, no image data received.'')
   \<and> (\<exists>s1 s2. handleEditImage t_en edit_service_up ''make the sky pink'' app_kite = Ran s1 s2
      \<and> sceneImage (scenes (storyHistory s2 ! 0) ! 0) = Image ''data:image/png;base64,BBBB''
      \<and> scenes (storyHistory s2 ! 0) ! 1 = scene_failed
      \<and> error s2 = None)"
proof -
  have act: "activeStoryIndex app_kite = Some 0"
    and ed: "editingSceneIndex app_kite = Some 0"
    and ch: "character1 app_kite \<noteq> None"
    and pr: "''make the sky pink'' \<noteq> []"
    and a: "0 < length (storyHistory app_kite)"
    and e: "0 < length (scenes (storyHistory app_kite ! 0))"
    and img: "truthy_image (sceneImage (scenes (storyHistory app_kite ! 0) ! 0))"
    by (simp_all add: app_kite_def story_kite_def scene_ready_def)
  have down: "edit_service_down (sceneImage (scenes (storyHistory app_kite ! 0) ! 0))
                ''make the sky pink''
              = Inl (Error ''Image editing failed, no image data received.'')"
    by (simp add: edit_service_down_def)
  have up: "edit_service_up (sceneImage (scenes (storyHistory app_kite ! 0) ! 0))
                ''make the sky pink''
              = Inr ''data:image/png;base64,BBBB''"
    by (simp add: edit_service_up_def)
  have other: "scenes (storyHistory app_kite ! 0) ! 1 = scene_failed"
    by (simp add: app_kite_def story_kite_def)
  from edit_image_effect [OF act ed ch pr a e img, of t_en edit_service_down] down
  have failing: "\<exists>s1 s2. handleEditImage t_en edit_service_down ''make the sky pink'' app_kite
                   = Ran s1 s2
      \<and> storyHistory s2 = storyHistory app_kite
      \<and> error s2 = Some ''Image editing failed, no image data received.''"
    by force
  from edit_image_effect [OF act ed ch pr a e img, of t_en edit_service_up] up a other
  have answering: "\<exists>s1 s2. handleEditImage t_en edit_service_up ''make the sky pink'' app_kite
                     = Ran s1 s2
      \<and> sceneImage (scenes (storyHistory s2 ! 0) ! 0) = Image ''data:image/png;base64,BBBB''
      \<and> scenes (storyHistory s2 ! 0) ! 1 = scene_failed
      \<and> error s2 = None"
    by force
  from failing answering show ?thesis by (rule conjI)
qed

section \<open>Properties of the image loop\<close>

lemma generateImage_retry_shape:
  assumes "generateImage_retry gI p w = (r, tries, w1)"
  shows "(\<exists>url. r = Inr url \<and> tries = [Inr url])
       \<or> (\<exists>err url. r = Inr url \<and> tries = [Inl err, Inr url])
       \<or> (\<exists>err1 err2. r = Inl err2 \<and> tries = [Inl err1, Inl err2])"
  using assms
  by (cases r) (auto simp: generateImage_retry_def split: prod.splits sum.splits)

lemma image_loop_log:
  assumes "image_loop gI up onI tot ps i f w s = (f', slog, w', s')"
  shows "length slog = length ps
       \<and> f' = f + length (filter (\<lambda>e. delivered e = Null) slog)
       \<and> (\<forall>e\<in>set slog. scene_outcome e)"
  using assms
proof (induction ps arbitrary: i f w s f' slog w' s')
  case Nil
  then show ?case by simp
next
  case (Cons p ps)
  obtain r tries w1 where retry: "generateImage_retry gI p w = (r, tries, w1)"
    by (cases "generateImage_retry gI p w") auto
  define img where "img = (case r of Inr url \<Rightarrow> Image url | Inl err \<Rightarrow> Null)"
  define f1 where "f1 = (case r of Inr url \<Rightarrow> f | Inl err \<Rightarrow> f + 1)"
  define s2 where "s2 = up 3 (Some (i + 1, tot)) (onI img i s)"
  obtain f2 slog2 w2 s3 where rest: "image_loop gI up onI tot ps (i + 1) f1 w1 s2 = (f2, slog2, w2, s3)"
    by (cases "image_loop gI up onI tot ps (i + 1) f1 w1 s2") auto
  from Cons.prems retry rest
  have res: "f' = f2" "slog = \<lparr>attempts = tries, delivered = img\<rparr> # slog2" "w' = w2" "s' = s3"
    by (simp_all add: Let_def img_def f1_def s2_def)
  from Cons.IH [OF rest]
  have ih: "length slog2 = length ps"
    "f2 = f1 + length (filter (\<lambda>e. delivered e = Null) slog2)"
    "\<forall>e\<in>set slog2. scene_outcome e"
    by simp_all
  from generateImage_retry_shape [OF retry]
  have head: "scene_outcome \<lparr>attempts = tries, delivered = img\<rparr>"
    by (auto simp: scene_outcome_def img_def)
  have cnt: "f1 = f + (if img = Null then 1 else 0)"
    by (simp add: f1_def img_def split: sum.splits)
  from res ih head cnt show ?case by simp
qed

lemma image_loop_scenes:
  fixes proj :: "'s \<Rightarrow> Scene list"
  assumes onI: "\<And>img i s. Inv s \<Longrightarrow>
             Inv (onI img i s) \<and> proj (onI img i s) = write_image img (base + i) (proj s)"
    and up: "\<And>st pr s. Inv s \<Longrightarrow> Inv (up st pr s) \<and> proj (up st pr s) = proj s"
    and inv: "Inv s"
    and run: "image_loop gI up onI tot ps i f w s = (f', slog, w', s')"
  shows "Inv s' \<and> length (proj s') = length (proj s)
       \<and> (\<forall>j<length (proj s). proj s' ! j =
            (if base + i \<le> j \<and> j < base + i + length ps
             then (proj s ! j)\<lparr>sceneImage := delivered (slog ! (j - (base + i)))\<rparr>
             else proj s ! j))"
  using inv run
proof (induction ps arbitrary: i f w s f' slog w' s')
  case Nil
  then show ?case by auto
next
  case (Cons p ps)
  obtain r tries w1 where retry: "generateImage_retry gI p w = (r, tries, w1)"
    by (cases "generateImage_retry gI p w") auto
  define img where "img = (case r of Inr url \<Rightarrow> Image url | Inl err \<Rightarrow> Null)"
  define f1 where "f1 = (case r of Inr url \<Rightarrow> f | Inl err \<Rightarrow> f + 1)"
  define s2 where "s2 = up 3 (Some (i + 1, tot)) (onI img i s)"
  obtain f2 slog2 w2 s3 where rest: "image_loop gI up onI tot ps (i + 1) f1 w1 s2 = (f2, slog2, w2, s3)"
    by (cases "image_loop gI up onI tot ps (i + 1) f1 w1 s2") auto
  from Cons.prems(2) retry rest
  have res: "slog = \<lparr>attempts = tries, delivered = img\<rparr> # slog2" "s' = s3"
    by (simp_all add: Let_def img_def f1_def s2_def)
  from onI [OF Cons.prems(1)] have 1: "Inv (onI img i s)"
    "proj (onI img i s) = write_image img (base + i) (proj s)"
    by simp_all
  from up [OF 1(1)] 1(2) have 2: "Inv s2" "proj s2 = write_image img (base + i) (proj s)"
    by (simp_all add: s2_def)
  from Cons.IH [OF 2(1) rest] 2(2)
  have ih: "Inv s3" "length (proj s3) = length (proj s)"
    "\<forall>j<length (proj s). proj s3 ! j =
        (if base + (i + 1) \<le> j \<and> j < base + (i + 1) + length ps
         then (write_image img (base + i) (proj s) ! j)
                \<lparr>sceneImage := delivered (slog2 ! (j - (base + (i + 1))))\<rparr>
         else write_image img (base + i) (proj s) ! j)"
    by (simp_all add: length_write_image)
  have "proj s3 ! j =
          (if base + i \<le> j \<and> j < base + i + length (p # ps)
           then (proj s ! j)\<lparr>sceneImage := delivered (slog ! (j - (base + i)))\<rparr>
           else proj s ! j)" if j: "j < length (proj s)" for j
  proof (cases "j = base + i")
    case True
    with j ih(3) show ?thesis
      by (simp add: write_image_def res)
  next
    case False
    then have "(j - (base + i)) = Suc (j - (base + (i + 1)))" if "base + i \<le> j"
      using that by simp
    with False j ih(3) show ?thesis
      by (auto simp: write_image_def res)
  qed
  with ih res show ?case by simp
qed

lemma generateImage_retry_recording:
  assumes "generateImage_retry (recording gI) p (calls, w) = (r, tries, cw1)"
  shows "fst cw1 = calls @ map (Pair p) tries"
  using assms
  by (auto simp: generateImage_retry_def recording_def split: prod.splits sum.splits)

lemma image_loop_calls:
  assumes "image_loop (recording gI) up onI tot ps i f (calls, w) s = (f', slog, cw', s')"
  shows "fst cw' = calls @ concat (map (\<lambda>(q, e). map (Pair q) (attempts e)) (zip ps slog))"
  using assms
proof (induction ps arbitrary: i f calls w s f' slog cw' s')
  case Nil
  then show ?case by auto
next
  case (Cons p ps)
  obtain r tries cw1 where retry: "generateImage_retry (recording gI) p (calls, w) = (r, tries, cw1)"
    using prod_cases3 by blast
  obtain calls1 w1 where cw1: "cw1 = (calls1, w1)" by (cases cw1)
  from generateImage_retry_recording [OF retry] cw1
  have calls1: "calls1 = calls @ map (Pair p) tries" by simp
  define img where "img = (case r of Inr url \<Rightarrow> Image url | Inl err \<Rightarrow> Null)"
  define f1 where "f1 = (case r of Inr url \<Rightarrow> f | Inl err \<Rightarrow> f + 1)"
  define s2 where "s2 = up 3 (Some (i + 1, tot)) (onI img i s)"
  obtain f2 slog2 cw2 s3 where rest:
    "image_loop (recording gI) up onI tot ps (i + 1) f1 (calls1, w1) s2 = (f2, slog2, cw2, s3)"
    using prod_cases4 by blast
  from Cons.prems retry rest cw1
  have res: "slog = \<lparr>attempts = tries, delivered = img\<rparr> # slog2" "cw' = cw2"
    by (simp_all add: Let_def img_def f1_def s2_def)
  from Cons.IH [OF rest] calls1 res show ?case by simp
qed

lemma scene_outcome_calls:
  assumes "scene_outcome e"
  shows "(\<exists>url. map (Pair q) (attempts e) = [(q, Inr url)] \<and> delivered e = Image url)
       \<or> (\<exists>err url. map (Pair q) (attempts e) = [(q, Inl err), (q, Inr url)]
             \<and> delivered e = Image url)
       \<or> (\<exists>err1 err2. map (Pair q) (attempts e) = [(q, Inl err1), (q, Inl err2)]
             \<and> delivered e = Null)"
  using assms by (auto simp: scene_outcome_def)

lemma nth_call_groups:
  assumes "i < length ps" "length slog = length ps"
  shows "map (\<lambda>(q, e). map (Pair q) (attempts e)) (zip ps slog) ! i
           = map (Pair (ps ! i)) (attempts (slog ! i))"
  using assms by simp

section \<open>The new-story pipeline\<close>

lemma storyHistory_progressHandler [simp]:
  "storyHistory (progressHandler idx st pr s) = storyHistory s"
  by (simp add: progressHandler_def handleProgressUpdate_def Let_def)

lemma length_scene_placeholders [simp]: "length (scene_placeholders ps qs) = length ps"
  by (simp add: scene_placeholders_def length_mapi)

lemma nth_scene_placeholders:
  "i < length ps \<Longrightarrow> scene_placeholders ps qs ! i =
     \<lparr>paragraph = ps ! i, imagePrompt = nth_opt qs i, sceneImage = Undefined,
      videoPrompt = None, isVideoPromptLoading = None, isRegenerating = None\<rparr>"
  by (simp add: scene_placeholders_def nth_mapi)

lemma generate_loop_scenes:
  assumes run: "image_loop gI (progressHandler idx)
                  (\<lambda>img i. setStoryHistory (onImageGenerated V img i)) tot ps i f w s
                = (f', slog, w', s')"
    and k: "k < length (storyHistory s)" and id: "storyId (storyHistory s ! k) = V"
  shows "k < length (storyHistory s') \<and> storyId (storyHistory s' ! k) = V
       \<and> length (scenes (storyHistory s' ! k)) = length (scenes (storyHistory s ! k))
       \<and> (\<forall>j<length (scenes (storyHistory s ! k)). scenes (storyHistory s' ! k) ! j =
            (if i \<le> j \<and> j < i + length ps
             then (scenes (storyHistory s ! k) ! j)\<lparr>sceneImage := delivered (slog ! (j - i))\<rparr>
             else scenes (storyHistory s ! k) ! j))"
proof -
  let ?Inv = "\<lambda>s. k < length (storyHistory s) \<and> storyId (storyHistory s ! k) = V"
  let ?proj = "\<lambda>s. scenes (storyHistory s ! k)"
  have onI: "?Inv (setStoryHistory (onImageGenerated V img i) s)
           \<and> ?proj (setStoryHistory (onImageGenerated V img i) s)
               = write_image img (0 + i) (?proj s)" if "?Inv s" for img i s
    using that by (simp add: setStoryHistory_def onImageGenerated_def)
  have up: "?Inv (progressHandler idx st pr s) \<and> ?proj (progressHandler idx st pr s) = ?proj s"
    if "?Inv s" for st pr s
    using that by simp
  have inv: "?Inv s" using k id by simp
  from image_loop_scenes [where Inv = ?Inv and proj = ?proj and base = 0, OF onI up inv run]
  show ?thesis by simp
qed

text \<open>
  C4. Run the new-story pipeline on a service that records its calls, with the callbacks
  of \<^verbatim>\<open>handleGenerate\<close> for a version of id \<open>V\<close> that stands at index \<open>k\<close>, and let the
  story stage give as many paragraphs as prompts. Then the version has a scene for each
  prompt, and the calls that the service has recorded during the loop are, scene after
  scene in the order of the scenes, one group of calls for each prompt, all with that
  prompt. For every scene one of three holds: its group is one call that answered with
  an image, and the scene has that image; its group is a call that failed and a second
  call that answered with an image, and the scene has that image; its group is two
  calls that failed, and the image of the scene is \<^verbatim>\<open>null\<close>. So no scene has a third
  call, and a scene that failed does not end the loop.
\<close>

theorem retry_bound:
  assumes story: "generateStoryAndPrompts cw = (Inr response, (calls, w1))"
    and inv: "length (storyParagraphs response) = length (imagePrompts response)"
    and k: "k < length (storyHistory s)" and id: "storyId (storyHistory s ! k) = V"
    and run: "generateStoryAndImages generateStoryAndPrompts (recording generateImage)
                (progressHandler idx)
                (\<lambda>ttl paragraphs prompts. setStoryHistory (onStoryGenerated V ttl paragraphs prompts))
                (\<lambda>img i. setStoryHistory (onImageGenerated V img i)) cw s
              = (res, slog, (calls', w'), s')"
  shows "length (scenes (storyHistory s' ! k)) = length (imagePrompts response)
       \<and> (\<exists>groups. calls' = calls @ concat groups
            \<and> length groups = length (imagePrompts response)
            \<and> (\<forall>i<length (imagePrompts response).
                 (\<exists>url. groups ! i = [(imagePrompts response ! i, Inr url)]
                     \<and> sceneImage (scenes (storyHistory s' ! k) ! i) = Image url)
               \<or> (\<exists>err url. groups ! i = [(imagePrompts response ! i, Inl err),
                                             (imagePrompts response ! i, Inr url)]
                     \<and> sceneImage (scenes (storyHistory s' ! k) ! i) = Image url)
               \<or> (\<exists>err1 err2. groups ! i = [(imagePrompts response ! i, Inl err1),
                                               (imagePrompts response ! i, Inl err2)]
                     \<and> sceneImage (scenes (storyHistory s' ! k) ! i) = Null)))"
proof -
  let ?qs = "imagePrompts response"
  define s4 where "s4 = progressHandler idx 3 (Some (0, length ?qs))
     (progressHandler idx 2 None
        (setStoryHistory (onStoryGenerated V (storyTitle response) (storyParagraphs response) ?qs)
           (progressHandler idx 1 None s)))"
  obtain f1 slog1 cw2 s5 where loop:
    "image_loop (recording generateImage) (progressHandler idx)
       (\<lambda>img i. setStoryHistory (onImageGenerated V img i)) (length ?qs) ?qs 0 0 (calls, w1) s4
     = (f1, slog1, cw2, s5)"
    using prod_cases4 by blast
  from run story loop
  have out: "slog = slog1" "cw2 = (calls', w')" "storyHistory s' = storyHistory s5"
    by (auto simp: generateStoryAndImages_def Let_def s4_def split: if_splits)
  have h4: "storyHistory s4
              = onStoryGenerated V (storyTitle response) (storyParagraphs response) ?qs
                  (storyHistory s)"
    by (simp add: s4_def setStoryHistory_def)
  with k id have k4: "k < length (storyHistory s4)" "storyId (storyHistory s4 ! k) = V"
    "scenes (storyHistory s4 ! k) = scene_placeholders (storyParagraphs response) ?qs"
    by (simp_all add: onStoryGenerated_def)
  from generate_loop_scenes [OF loop k4(1,2)] k4(3) inv
  have sc: "length (scenes (storyHistory s5 ! k)) = length ?qs"
    "\<forall>j<length ?qs. sceneImage (scenes (storyHistory s5 ! k) ! j) = delivered (slog1 ! j)"
    by simp_all
  from image_loop_log [OF loop]
  have lg: "length slog1 = length ?qs" "\<forall>e\<in>set slog1. scene_outcome e"
    by simp_all
  define groups where
    "groups = map (\<lambda>(q, e). map (Pair q) (attempts e)) (zip ?qs slog1)"
  from image_loop_calls [OF loop] have calls: "calls' = calls @ concat groups"
    by (simp add: out groups_def)
  have len: "length groups = length ?qs"
    by (simp add: groups_def lg(1))
  have each: "(\<exists>url. groups ! i = [(?qs ! i, Inr url)]
                  \<and> sceneImage (scenes (storyHistory s5 ! k) ! i) = Image url)
            \<or> (\<exists>err url. groups ! i = [(?qs ! i, Inl err), (?qs ! i, Inr url)]
                  \<and> sceneImage (scenes (storyHistory s5 ! k) ! i) = Image url)
            \<or> (\<exists>err1 err2. groups ! i = [(?qs ! i, Inl err1), (?qs ! i, Inl err2)]
                  \<and> sceneImage (scenes (storyHistory s5 ! k) ! i) = Null)"
    if i: "i < length ?qs" for i
  proof -
    from i lg have "scene_outcome (slog1 ! i)" by simp
    from scene_outcome_calls [OF this, of "?qs ! i"]
    show ?thesis
      unfolding groups_def nth_call_groups [OF i lg(1)] using sc(2) i by simp
  qed
  from sc(1) calls len each show ?thesis
    unfolding out by blast
qed

theorem retry_bound_witness:
  "\<exists>res slog calls' w' s'.
     generateStoryAndImages story_stage_two (recording scripted_image_service)
       (progressHandler 0)
       (\<lambda>ttl paragraphs prompts.
          setStoryHistory (onStoryGenerated 1700000100000 ttl paragraphs prompts))
       (\<lambda>img i. setStoryHistory (onImageGenerated 1700000100000 img i))
       ([], [no_image, Inr ''data:image/png;base64,CCCC'', no_image, no_image]) app_generating
     = (res, slog, (calls', w'), s')
     \<and> calls' = [(''q1'', no_image), (''q1'', Inr ''data:image/png;base64,CCCC''),
                 (''q2'', no_image), (''q2'', no_image)]
     \<and> length (scenes (storyHistory s' ! 1)) = 2
     \<and> sceneImage (scenes (storyHistory s' ! 1) ! 0) = Image ''data:image/png;base64,CCCC''
     \<and> sceneImage (scenes (storyHistory s' ! 1) ! 1) = Null"
proof -
  let ?w = "[no_image, Inr ''data:image/png;base64,CCCC'', no_image, no_image]"
  let ?r = "\<lparr>storyTitle = ''The Kite'', storyParagraphs = [''p1'', ''p2''],
             imagePrompts = [''q1'', ''q2'']\<rparr>"
  obtain res slog cw' s' where run0:
    "generateStoryAndImages story_stage_two (recording scripted_image_service)
       (progressHandler 0)
       (\<lambda>ttl paragraphs prompts.
          setStoryHistory (onStoryGenerated 1700000100000 ttl paragraphs prompts))
       (\<lambda>img i. setStoryHistory (onImageGenerated 1700000100000 img i))
       ([], ?w) app_generating
     = (res, slog, cw', s')"
    using prod_cases4 by blast
  obtain calls' w' where cw': "cw' = (calls', w')" by (cases cw')
  note run = run0 [unfolded cw']
  have story: "story_stage_two ([], ?w) = (Inr ?r, ([], ?w))"
    by (simp add: story_stage_two_def)
  have inv: "length (storyParagraphs ?r) = length (imagePrompts ?r)"
    by simp
  have k: "1 < length (storyHistory app_generating)"
    and id: "storyId (storyHistory app_generating ! 1) = 1700000100000"
    by (simp_all add: app_generating_def story_placeholder_def)
  have calls: "calls' = [(''q1'', no_image), (''q1'', Inr ''data:image/png;base64,CCCC''),
                        (''q2'', no_image), (''q2'', no_image)]"
    using run
    by (simp add: generateStoryAndImages_def story_stage_two_def generateImage_retry_def
        recording_def no_image_def Let_def)
  have imgs: "sceneImage (scenes (storyHistory s' ! 1) ! 0) = Image ''data:image/png;base64,CCCC''
      \<and> sceneImage (scenes (storyHistory s' ! 1) ! 1) = Null"
    using run
    by (auto simp: generateStoryAndImages_def story_stage_two_def generateImage_retry_def
        recording_def no_image_def Let_def progressHandler_def handleProgressUpdate_def
        setStoryHistory_def onStoryGenerated_def onImageGenerated_def scene_placeholders_def
        mapi_def nth_opt_def write_image_def app_generating_def story_kite_def
        story_placeholder_def)
  from retry_bound [OF story inv k id run]
  have len: "length (scenes (storyHistory s' ! 1)) = 2"
    by simp
  with run calls imgs show ?thesis by blast
qed

section \<open>The terminal check\<close>

lemma all_failed_check:
  assumes lg: "length slog = n" and pos: "0 < n"
    and f: "f = length (filter (\<lambda>e. delivered e = Null) slog)"
  shows "((\<forall>e\<in>set slog. delivered e = Null) \<longrightarrow> (0 < f \<and> f = n))
       \<and> ((\<exists>e\<in>set slog. delivered e \<noteq> Null) \<longrightarrow> \<not> (0 < f \<and> f = n))"
proof -
  have "0 < f \<and> f = n" if "\<forall>e\<in>set slog. delivered e = Null"
  proof -
    from that have "filter (\<lambda>e. delivered e = Null) slog = slog" by simp
    with f lg pos show ?thesis by simp
  qed
  moreover have "\<not> (0 < f \<and> f = n)" if "\<exists>e\<in>set slog. delivered e \<noteq> Null"
  proof -
    from that obtain e where "e \<in> set slog" "delivered e \<noteq> Null" by blast
    then have "length (filter (\<lambda>e. delivered e = Null) slog) < length slog"
      by (rule length_filter_less)
    with f lg show ?thesis by simp
  qed
  ultimately show ?thesis by blast
qed

lemma terminal_check_calls:
  fixes qs :: "string list"
  assumes lg: "length slog = length qs" and out: "\<forall>e\<in>set slog. scene_outcome e"
    and f: "f = length (filter (\<lambda>e. delivered e = Null) slog)" and pos: "qs \<noteq> []"
    and groups: "groups = map (\<lambda>(q, e). map (Pair q) (attempts e)) (zip qs slog)"
  shows "length groups = length qs
       \<and> (\<forall>i<length qs.
            (\<exists>url. groups ! i = [(qs ! i, Inr url)])
          \<or> (\<exists>err url. groups ! i = [(qs ! i, Inl err), (qs ! i, Inr url)])
          \<or> (\<exists>err1 err2. groups ! i = [(qs ! i, Inl err1), (qs ! i, Inl err2)]))
       \<and> ((\<forall>i<length qs. \<exists>err1 err2. groups ! i = [(qs ! i, Inl err1), (qs ! i, Inl err2)])
            \<longrightarrow> 0 < f \<and> f = length qs)
       \<and> ((\<exists>i<length qs. \<exists>url. last (groups ! i) = (qs ! i, Inr url))
            \<longrightarrow> \<not> (0 < f \<and> f = length qs))"
proof -
  have nth: "groups ! i = map (Pair (qs ! i)) (attempts (slog ! i))" if "i < length qs" for i
    unfolding groups using that lg by simp
  have oc: "scene_outcome (slog ! i)" if "i < length qs" for i
    using that lg out by simp
  have len: "length groups = length qs"
    by (simp add: groups lg)
  have shape: "(\<exists>url. groups ! i = [(qs ! i, Inr url)])
          \<or> (\<exists>err url. groups ! i = [(qs ! i, Inl err), (qs ! i, Inr url)])
          \<or> (\<exists>err1 err2. groups ! i = [(qs ! i, Inl err1), (qs ! i, Inl err2)])"
    if i: "i < length qs" for i
    using scene_outcome_calls [OF oc [OF i], of "qs ! i"] by (auto simp: nth [OF i])
  from pos have pos': "0 < length qs" by simp
  note chk = all_failed_check [OF lg pos' f]
  have allf: "0 < f \<and> f = length qs"
    if h: "\<forall>i<length qs. \<exists>err1 err2. groups ! i = [(qs ! i, Inl err1), (qs ! i, Inl err2)]"
  proof -
    have "delivered e = Null" if e: "e \<in> set slog" for e
    proof -
      from e obtain i where i: "i < length slog" "slog ! i = e"
        by (auto simp: in_set_conv_nth)
      with lg have iq: "i < length qs" by simp
      from h iq obtain err1 err2 where "groups ! i = [(qs ! i, Inl err1), (qs ! i, Inl err2)]"
        by blast
      with nth [OF iq] have "map (Pair (qs ! i)) (attempts e) = [(qs ! i, Inl err1), (qs ! i, Inl err2)]"
        by (simp add: i)
      then have "attempts e = [Inl err1, Inl err2]"
        by (auto simp: map_eq_Cons_conv)
      with oc [OF iq] i show ?thesis
        by (auto simp: scene_outcome_def)
    qed
    with chk show ?thesis by blast
  qed
  have somes: "\<not> (0 < f \<and> f = length qs)"
    if h: "\<exists>i<length qs. \<exists>url. last (groups ! i) = (qs ! i, Inr url)"
  proof -
    from h obtain i url where iq: "i < length qs" and l: "last (groups ! i) = (qs ! i, Inr url)"
      by blast
    from oc [OF iq] l nth [OF iq] have "delivered (slog ! i) \<noteq> Null"
      by (auto simp: scene_outcome_def)
    moreover from iq lg have "slog ! i \<in> set slog" by simp
    ultimately have "\<exists>e\<in>set slog. delivered e \<noteq> Null" by blast
    with chk show ?thesis by blast
  qed
  from len shape allf somes show ?thesis by blast
qed

text \<open>
  C5. Run a pipeline on a service that records its calls, and let the story stage give
  at least one prompt. The calls recorded during the loop are one group for each prompt,
  in order: one call that answered with an image, or a failed call and a call that
  answered with an image, or two failed calls. When the group of every prompt is two
  failed calls, the pipeline throws the all-images-failed error; when the group of some
  prompt ends with an image, the pipeline completes. The same holds for the continuation
  pipeline, whose groups are those of the new prompts only, whatever the existing
  story is.
\<close>

theorem all_fail_termination:
  assumes story: "generateStoryAndPrompts cw = (Inr response, (calls, w1))"
    and k1: "imagePrompts response \<noteq> []"
    and run: "generateStoryAndImages generateStoryAndPrompts (recording generateImage)
                updateProgress onStory onImage cw s = (res, slog, (calls', w'), s')"
    and cstory: "continueStoryAndPrompts (map paragraph (scenes existingStory)) ccw
                 = (Inr (paragraphs, prompts), (ccalls, cw1))"
    and ck1: "prompts \<noteq> []"
    and crun: "continueStoryAndImages existingStory continueStoryAndPrompts
                 (recording generateNewImage) updateNewProgress onNewStory onNewImage ccw cs
               = (cres, cslog, (ccalls', cw'), cs')"
  shows "(\<exists>groups. calls' = calls @ concat groups
            \<and> length groups = length (imagePrompts response)
            \<and> (\<forall>i<length (imagePrompts response).
                 (\<exists>url. groups ! i = [(imagePrompts response ! i, Inr url)])
               \<or> (\<exists>err url. groups ! i = [(imagePrompts response ! i, Inl err),
                                             (imagePrompts response ! i, Inr url)])
               \<or> (\<exists>err1 err2. groups ! i = [(imagePrompts response ! i, Inl err1),
                                               (imagePrompts response ! i, Inl err2)]))
            \<and> ((\<forall>i<length (imagePrompts response).
                   \<exists>err1 err2. groups ! i = [(imagePrompts response ! i, Inl err1),
                                              (imagePrompts response ! i, Inl err2)])
                 \<longrightarrow> res = Inl (Error all_images_failed_msg))
            \<and> ((\<exists>i<length (imagePrompts response).
                   \<exists>url. last (groups ! i) = (imagePrompts response ! i, Inr url))
                 \<longrightarrow> res = Inr ()))
       \<and> (\<exists>groups. ccalls' = ccalls @ concat groups
            \<and> length groups = length prompts
            \<and> (\<forall>i<length prompts.
                 (\<exists>url. groups ! i = [(prompts ! i, Inr url)])
               \<or> (\<exists>err url. groups ! i = [(prompts ! i, Inl err), (prompts ! i, Inr url)])
               \<or> (\<exists>err1 err2. groups ! i = [(prompts ! i, Inl err1), (prompts ! i, Inl err2)]))
            \<and> ((\<forall>i<length prompts.
                   \<exists>err1 err2. groups ! i = [(prompts ! i, Inl err1), (prompts ! i, Inl err2)])
                 \<longrightarrow> cres = Inl (Error all_new_images_failed_msg))
            \<and> ((\<exists>i<length prompts. \<exists>url. last (groups ! i) = (prompts ! i, Inr url))
                 \<longrightarrow> cres = Inr ()))"
proof -
  let ?qs = "imagePrompts response"
  define s4 where "s4 = updateProgress 3 (Some (0, length ?qs))
     (updateProgress 2 None
        (onStory (storyTitle response) (storyParagraphs response) ?qs (updateProgress 1 None s)))"
  obtain f1 slog1 cw2 s5 where loop:
    "image_loop (recording generateImage) updateProgress onImage (length ?qs) ?qs 0 0
       (calls, w1) s4 = (f1, slog1, cw2, s5)"
    using prod_cases4 by blast
  from run story loop
  have out: "cw2 = (calls', w')"
    "res = (if 0 < f1 \<and> f1 = length ?qs then Inl (Error all_images_failed_msg) else Inr ())"
    by (auto simp: generateStoryAndImages_def Let_def s4_def split: if_splits)
  from image_loop_log [OF loop]
  have lg: "length slog1 = length ?qs"
    "f1 = length (filter (\<lambda>e. delivered e = Null) slog1)"
    "\<forall>e\<in>set slog1. scene_outcome e"
    by simp_all
  define groups where
    "groups = map (\<lambda>(q, e). map (Pair q) (attempts e)) (zip ?qs slog1)"
  from image_loop_calls [OF loop] have calls: "calls' = calls @ concat groups"
    by (simp add: out groups_def)
  note t = terminal_check_calls [OF lg(1) lg(3) lg(2) k1 groups_def]
  have gen: "\<exists>groups. calls' = calls @ concat groups
            \<and> length groups = length ?qs
            \<and> (\<forall>i<length ?qs.
                 (\<exists>url. groups ! i = [(?qs ! i, Inr url)])
               \<or> (\<exists>err url. groups ! i = [(?qs ! i, Inl err), (?qs ! i, Inr url)])
               \<or> (\<exists>err1 err2. groups ! i = [(?qs ! i, Inl err1), (?qs ! i, Inl err2)]))
            \<and> ((\<forall>i<length ?qs.
                   \<exists>err1 err2. groups ! i = [(?qs ! i, Inl err1), (?qs ! i, Inl err2)])
                 \<longrightarrow> res = Inl (Error all_images_failed_msg))
            \<and> ((\<exists>i<length ?qs. \<exists>url. last (groups ! i) = (?qs ! i, Inr url))
                 \<longrightarrow> res = Inr ())"
    apply (rule exI [of _ groups])
    using calls t unfolding out(2) by auto
  define c4 where "c4 = updateNewProgress 3 (Some (0, length prompts))
     (updateNewProgress 2 None (onNewStory paragraphs prompts (updateNewProgress 1 None cs)))"
  obtain cf1 cslog1 ccw2 cs5 where cloop:
    "image_loop (recording generateNewImage) updateNewProgress onNewImage (length prompts)
       prompts 0 0 (ccalls, cw1) c4 = (cf1, cslog1, ccw2, cs5)"
    using prod_cases4 by blast
  from crun cstory cloop
  have cout: "ccw2 = (ccalls', cw')"
    "cres = (if 0 < cf1 \<and> cf1 = length prompts
             then Inl (Error all_new_images_failed_msg) else Inr ())"
    by (auto simp: continueStoryAndImages_def Let_def c4_def split: if_splits)
  from image_loop_log [OF cloop]
  have clg: "length cslog1 = length prompts"
    "cf1 = length (filter (\<lambda>e. delivered e = Null) cslog1)"
    "\<forall>e\<in>set cslog1. scene_outcome e"
    by simp_all
  define cgroups where
    "cgroups = map (\<lambda>(q, e). map (Pair q) (attempts e)) (zip prompts cslog1)"
  from image_loop_calls [OF cloop] have ccalls: "ccalls' = ccalls @ concat cgroups"
    by (simp add: cout cgroups_def)
  note ct = terminal_check_calls [OF clg(1) clg(3) clg(2) ck1 cgroups_def]
  have con: "\<exists>groups. ccalls' = ccalls @ concat groups
            \<and> length groups = length prompts
            \<and> (\<forall>i<length prompts.
                 (\<exists>url. groups ! i = [(prompts ! i, Inr url)])
               \<or> (\<exists>err url. groups ! i = [(prompts ! i, Inl err), (prompts ! i, Inr url)])
               \<or> (\<exists>err1 err2. groups ! i = [(prompts ! i, Inl err1), (prompts ! i, Inl err2)]))
            \<and> ((\<forall>i<length prompts.
                   \<exists>err1 err2. groups ! i = [(prompts ! i, Inl err1), (prompts ! i, Inl err2)])
                 \<longrightarrow> cres = Inl (Error all_new_images_failed_msg))
            \<and> ((\<exists>i<length prompts. \<exists>url. last (groups ! i) = (prompts ! i, Inr url))
                 \<longrightarrow> cres = Inr ())"
    apply (rule exI [of _ cgroups])
    using ccalls ct unfolding cout(2) by auto
  from gen con show ?thesis by (rule conjI)
qed

theorem all_fail_termination_witness:
  "\<exists>res slog calls' w' s' cres cslog ccalls' cw' cs'.
     generateStoryAndImages story_stage_two (recording scripted_image_service)
       (progressHandler 0)
       (\<lambda>ttl paragraphs prompts.
          setStoryHistory (onStoryGenerated 1700000100000 ttl paragraphs prompts))
       (\<lambda>img i. setStoryHistory (onImageGenerated 1700000100000 img i))
       ([], [no_image, no_image, no_image, no_image]) app_generating
     = (res, slog, (calls', w'), s')
     \<and> continueStoryAndImages story_kite continue_stage_one
         (recording scripted_image_service) continueProgress
         (onNewStoryPartsGenerated 0 Conclude) (onNewImageGenerated 0)
         ([], [no_image, Inr ''data:image/png;base64,DDDD'']) (0, app_kite)
       = (cres, cslog, (ccalls', cw'), cs')
     \<and> calls' = [(''q1'', no_image), (''q1'', no_image), (''q2'', no_image), (''q2'', no_image)]
     \<and> res = Inl (Error all_images_failed_msg)
     \<and> ccalls' = [(''q3'', no_image), (''q3'', Inr ''data:image/png;base64,DDDD'')]
     \<and> cres = Inr ()"
proof -
  let ?w = "[no_image, no_image, no_image, no_image]"
  let ?cw = "[no_image, Inr ''data:image/png;base64,DDDD'']"
  let ?r = "\<lparr>storyTitle = ''The Kite'', storyParagraphs = [''p1'', ''p2''],
             imagePrompts = [''q1'', ''q2'']\<rparr>"
  obtain res slog cw1 s' where run0:
    "generateStoryAndImages story_stage_two (recording scripted_image_service)
       (progressHandler 0)
       (\<lambda>ttl paragraphs prompts.
          setStoryHistory (onStoryGenerated 1700000100000 ttl paragraphs prompts))
       (\<lambda>img i. setStoryHistory (onImageGenerated 1700000100000 img i))
       ([], ?w) app_generating
     = (res, slog, cw1, s')"
    using prod_cases4 by blast
  obtain calls' w' where cw1: "cw1 = (calls', w')" by (cases cw1)
  note run = run0 [unfolded cw1]
  obtain cres cslog cw2 cs' where crun0:
    "continueStoryAndImages story_kite continue_stage_one
         (recording scripted_image_service) continueProgress
         (onNewStoryPartsGenerated 0 Conclude) (onNewImageGenerated 0)
         ([], ?cw) (0, app_kite)
       = (cres, cslog, cw2, cs')"
    using prod_cases4 by blast
  obtain ccalls' cw' where cw2: "cw2 = (ccalls', cw')" by (cases cw2)
  note crun = crun0 [unfolded cw2]
  have story: "story_stage_two ([], ?w) = (Inr ?r, ([], ?w))"
    by (simp add: story_stage_two_def)
  have k1: "imagePrompts ?r \<noteq> []"
    by simp
  have cstory: "continue_stage_one (map paragraph (scenes story_kite)) ([], ?cw)
                  = (Inr ([''p3''], [''q3'']), ([], ?cw))"
    by (simp add: continue_stage_one_def)
  have ck1: "[''q3''] \<noteq> []" by simp
  have calls: "calls' = [(''q1'', no_image), (''q1'', no_image),
                        (''q2'', no_image), (''q2'', no_image)]"
    using run
    by (simp add: generateStoryAndImages_def story_stage_two_def generateImage_retry_def
        recording_def no_image_def Let_def)
  have ccalls: "ccalls' = [(''q3'', no_image), (''q3'', Inr ''data:image/png;base64,DDDD'')]"
    using crun
    by (simp add: continueStoryAndImages_def continue_stage_one_def generateImage_retry_def
        recording_def no_image_def Let_def)
  have res: "res = Inl (Error all_images_failed_msg)"
    using run
    by (simp add: generateStoryAndImages_def story_stage_two_def generateImage_retry_def
        recording_def no_image_def Let_def)
  from all_fail_termination [OF story k1 run cstory ck1 crun]
  obtain groups where g: "ccalls' = [] @ concat groups" "length groups = length [''q3'']"
    and ok: "(\<exists>i<length [''q3'']. \<exists>url. last (groups ! i) = ([''q3''] ! i, Inr url))
               \<longrightarrow> cres = Inr ()"
    by blast
  from g(2) obtain g0 where groups: "groups = [g0]"
    by (auto simp: length_Suc_conv)
  with g(1) ccalls have "g0 = [(''q3'', no_image), (''q3'', Inr ''data:image/png;base64,DDDD'')]"
    by simp
  with ok groups have cres: "cres = Inr ()"
    by simp
  from run crun calls res ccalls cres show ?thesis by blast
qed

section \<open>The continuation pipeline\<close>

lemma onNewImageGenerated_scenes:
  assumes a0: "a < length (storyHistory s0)"
    and l0: "length (scenes (storyHistory s0 ! a)) = j + p"
  shows "onNewImageGenerated a img i (p, s0) =
     (p, s0\<lparr>storyHistory := (storyHistory s0)[a := (storyHistory s0 ! a)
               \<lparr>scenes := write_image img (j + i) (scenes (storyHistory s0 ! a))\<rparr>]\<rparr>)"
proof -
  have idx: "int (j + p) - int p + int i = int (j + i)"
    by simp
  show ?thesis
    unfolding onNewImageGenerated_eq
    by (simp add: Let_def a0 l0 idx del: of_nat_add)
qed

lemma continueProgress_eq:
  "continueProgress sp pr (n, s) = (n, handleProgressUpdate sp pr s)"
  by (simp add: continueProgress_def)

lemma storyHistory_handleProgressUpdate [simp]:
  "storyHistory (handleProgressUpdate sp pr s) = storyHistory s"
  by (simp add: handleProgressUpdate_def Let_def)

lemma continue_loop_scenes:
  assumes run: "image_loop gI continueProgress (onNewImageGenerated a) tot qs i f w (p, s)
                = (f', slog, w', st')"
    and a: "a < length (storyHistory s)"
    and len: "length (scenes (storyHistory s ! a)) = j + p"
  shows "fst st' = p \<and> a < length (storyHistory (snd st'))
       \<and> length (scenes (storyHistory (snd st') ! a)) = j + p
       \<and> (\<forall>x<j + p. scenes (storyHistory (snd st') ! a) ! x =
            (if j + i \<le> x \<and> x < j + i + length qs
             then (scenes (storyHistory s ! a) ! x)\<lparr>sceneImage := delivered (slog ! (x - (j + i)))\<rparr>
             else scenes (storyHistory s ! a) ! x))"
proof -
  define Inv where "Inv = (\<lambda>st :: nat \<times> App. fst st = p \<and> a < length (storyHistory (snd st))
                \<and> length (scenes (storyHistory (snd st) ! a)) = j + p)"
  define proj where "proj = (\<lambda>st :: nat \<times> App. scenes (storyHistory (snd st) ! a))"
  have onI: "Inv (onNewImageGenerated a img i st)
           \<and> proj (onNewImageGenerated a img i st) = write_image img (j + i) (proj st)"
    if "Inv st" for img i st
  proof -
    from that obtain s0 where st: "st = (p, s0)"
      and a0: "a < length (storyHistory s0)"
      and l0: "length (scenes (storyHistory s0 ! a)) = j + p"
      by (cases st) (simp add: Inv_def)
    show ?thesis
      unfolding st onNewImageGenerated_scenes [OF a0 l0]
      by (simp add: Inv_def proj_def a0 l0 length_write_image)
  qed
  have up: "Inv (continueProgress sp pr st) \<and> proj (continueProgress sp pr st) = proj st"
    if "Inv st" for sp pr st
    using that
    by (cases st) (simp add: Inv_def proj_def continueProgress_eq)
  have inv: "Inv (p, s)" using a len by (simp add: Inv_def)
  have "Inv st' \<and> length (proj st') = length (proj (p, s))
       \<and> (\<forall>x<length (proj (p, s)). proj st' ! x =
            (if j + i \<le> x \<and> x < j + i + length qs
             then (proj (p, s) ! x)\<lparr>sceneImage := delivered (slog ! (x - (j + i)))\<rparr>
             else proj (p, s) ! x))"
    using onI up inv run by (rule image_loop_scenes)
  then show ?thesis
    by (simp add: Inv_def proj_def len)
qed

text \<open>
  C6. Run the continuation pipeline with the callbacks of \<^verbatim>\<open>handleContinueStory\<close> for
  the active index \<open>a\<close>, on a story of \<open>j\<close> scenes, and let the story stage give \<open>p\<close>
  paragraphs with \<open>p\<close> prompts. The story callback appends the \<open>p\<close> new scenes. At the
  end the story has \<open>j + p\<close> scenes, its first \<open>j\<close> scenes are the old ones, and the scene
  at \<open>j + i\<close> has the paragraph and the prompt of index \<open>i\<close> and the image handed on for
  index \<open>i\<close>. An image callback of index \<open>i < p\<close> on a story of \<open>j + p\<close> scenes writes
  the scene at \<open>j + i\<close> and no other.
\<close>

theorem continuation_append:
  assumes a: "a < length (storyHistory s)"
    and story: "continueStoryAndPrompts (map paragraph (scenes existingStory)) w
                = (Inr (paragraphs, prompts), w1)"
    and inv: "length prompts = length paragraphs"
    and run: "continueStoryAndImages existingStory continueStoryAndPrompts generateImage
                continueProgress (onNewStoryPartsGenerated a mode) (onNewImageGenerated a)
                w (n0, s)
              = (res, slog, w', (n', s'))"
  shows "scenes (storyHistory (snd (onNewStoryPartsGenerated a mode paragraphs prompts (n0, s))) ! a)
           = scenes (storyHistory s ! a) @ scene_placeholders paragraphs prompts
       \<and> length (scenes (storyHistory s' ! a))
           = length (scenes (storyHistory s ! a)) + length paragraphs
       \<and> take (length (scenes (storyHistory s ! a))) (scenes (storyHistory s' ! a))
           = scenes (storyHistory s ! a)
       \<and> (\<forall>i<length paragraphs.
            scenes (storyHistory s' ! a) ! (length (scenes (storyHistory s ! a)) + i)
              = \<lparr>paragraph = paragraphs ! i, imagePrompt = Some (prompts ! i),
                 sceneImage = delivered (slog ! i), videoPrompt = None,
                 isVideoPromptLoading = None, isRegenerating = None\<rparr>)
       \<and> (\<forall>i<length paragraphs. \<forall>img s2.
            a < length (storyHistory s2)
            \<and> length (scenes (storyHistory s2 ! a))
                = length (scenes (storyHistory s ! a)) + length paragraphs
            \<longrightarrow> onNewImageGenerated a img i (length paragraphs, s2)
                = (length paragraphs,
                   s2\<lparr>storyHistory := (storyHistory s2)[a := (storyHistory s2 ! a)
                        \<lparr>scenes := (scenes (storyHistory s2 ! a))
                           [length (scenes (storyHistory s ! a)) + i :=
                              (scenes (storyHistory s2 ! a)
                                 ! (length (scenes (storyHistory s ! a)) + i))
                              \<lparr>sceneImage := img\<rparr>]\<rparr>]\<rparr>))"
proof -
  let ?old = "scenes (storyHistory s ! a)"
  let ?j = "length ?old"
  let ?p = "length paragraphs"
  define sB where "sB = snd (onNewStoryPartsGenerated a mode paragraphs prompts
                              (n0, handleProgressUpdate 1 None s))"
  define s4 where "s4 = handleProgressUpdate 3 (Some (0, length prompts))
                          (handleProgressUpdate 2 None sB)"
  have stB: "onNewStoryPartsGenerated a mode paragraphs prompts (n0, handleProgressUpdate 1 None s)
              = (?p, sB)"
    by (simp add: sB_def onNewStoryPartsGenerated_eq)
  have hB: "a < length (storyHistory sB)"
    "scenes (storyHistory sB ! a) = ?old @ scene_placeholders paragraphs prompts"
    using a by (simp_all add: sB_def onNewStoryPartsGenerated_eq)
  then have h4: "a < length (storyHistory s4)"
    "scenes (storyHistory s4 ! a) = ?old @ scene_placeholders paragraphs prompts"
    by (simp_all add: s4_def)
  obtain f1 slog1 w2 st5 where loop:
    "image_loop generateImage continueProgress (onNewImageGenerated a) (length prompts) prompts
       0 0 w1 (?p, s4) = (f1, slog1, w2, st5)"
    using prod_cases4 by blast
  obtain n5 s5 where st5: "st5 = (n5, s5)" by (cases st5)
  have pre: "continueProgress 3 (Some (0, length prompts))
               (continueProgress 2 None
                  (onNewStoryPartsGenerated a mode paragraphs prompts
                     (continueProgress 1 None (n0, s))))
             = (?p, s4)"
    by (simp only: continueProgress_eq stB s4_def)
  from run
  have "(if 0 < f1 \<and> f1 = length prompts
         then (Inl (Error all_new_images_failed_msg), slog1, w2, st5)
         else (Inr (), slog1, w2, continueProgress 4 None st5))
        = (res, slog, w', (n', s'))"
    unfolding continueStoryAndImages_def Let_def story
    by (simp only: prod.case sum.case pre loop gr0_conv_Suc [symmetric])
  then have out: "slog = slog1" "storyHistory s' = storyHistory s5"
    by (auto simp: st5 continueProgress_eq split: if_splits)
  have len4: "length (scenes (storyHistory s4 ! a)) = ?j + ?p"
    by (simp add: h4(2))
  from continue_loop_scenes [OF loop h4(1) len4] inv
  have fin: "length (scenes (storyHistory s5 ! a)) = ?j + ?p"
    "\<forall>x<?j + ?p. scenes (storyHistory s5 ! a) ! x =
        (if ?j \<le> x
         then ((?old @ scene_placeholders paragraphs prompts) ! x)
                \<lparr>sceneImage := delivered (slog1 ! (x - ?j))\<rparr>
         else (?old @ scene_placeholders paragraphs prompts) ! x)"
    by (simp_all add: h4(2) st5)
  have c1: "scenes (storyHistory (snd (onNewStoryPartsGenerated a mode paragraphs prompts (n0, s))) ! a)
           = ?old @ scene_placeholders paragraphs prompts"
    using a by (simp add: onNewStoryPartsGenerated_eq)
  have c2: "length (scenes (storyHistory s' ! a)) = ?j + ?p"
    using fin(1) by (simp add: out)
  have c3: "take ?j (scenes (storyHistory s' ! a)) = ?old"
  proof (rule nth_equalityI)
    show "length (take ?j (scenes (storyHistory s' ! a))) = length ?old"
      using c2 by simp
  next
    fix x assume "x < length (take ?j (scenes (storyHistory s' ! a)))"
    then have x: "x < ?j" by simp
    with fin(2) show "take ?j (scenes (storyHistory s' ! a)) ! x = ?old ! x"
      by (simp add: out nth_append)
  qed
  have c4: "scenes (storyHistory s' ! a) ! (?j + i)
              = \<lparr>paragraph = paragraphs ! i, imagePrompt = Some (prompts ! i),
                 sceneImage = delivered (slog ! i), videoPrompt = None,
                 isVideoPromptLoading = None, isRegenerating = None\<rparr>"
    if "i < ?p" for i
    using that fin(2) inv
    by (simp add: out nth_append nth_scene_placeholders nth_opt_def)
  have c5: "onNewImageGenerated a img i (?p, s2)
                = (?p,
                   s2\<lparr>storyHistory := (storyHistory s2)[a := (storyHistory s2 ! a)
                        \<lparr>scenes := (scenes (storyHistory s2 ! a))
                           [?j + i := (scenes (storyHistory s2 ! a) ! (?j + i))
                              \<lparr>sceneImage := img\<rparr>]\<rparr>]\<rparr>)"
    if "i < ?p" "a < length (storyHistory s2)"
       "length (scenes (storyHistory s2 ! a)) = ?j + ?p" for i img s2
    using that by (simp add: onNewImageGenerated_scenes [OF that(2,3)] write_image_def)
  from c1 c2 c3 c4 c5 show ?thesis by blast
qed

theorem continuation_append_witness:
  "\<exists>res slog w' n' s'.
     continueStoryAndImages story_kite continue_stage_one scripted_image_service
       continueProgress (onNewStoryPartsGenerated 0 Conclude) (onNewImageGenerated 0)
       [Inr ''data:image/png;base64,DDDD''] (0, app_kite)
     = (res, slog, w', (n', s'))
     \<and> length (scenes (storyHistory s' ! 0)) = 3
     \<and> take 2 (scenes (storyHistory s' ! 0)) = [scene_ready, scene_failed]
     \<and> scenes (storyHistory s' ! 0) ! 2
         = \<lparr>paragraph = ''p3'', imagePrompt = Some ''q3'',
            sceneImage = Image ''data:image/png;base64,DDDD'', videoPrompt = None,
            isVideoPromptLoading = None, isRegenerating = None\<rparr>"
proof -
  let ?w = "[Inr ''data:image/png;base64,DDDD'']"
  obtain res slog w' n' s' where run:
    "continueStoryAndImages story_kite continue_stage_one scripted_image_service
       continueProgress (onNewStoryPartsGenerated 0 Conclude) (onNewImageGenerated 0)
       ?w (0, app_kite)
     = (res, slog, w', (n', s'))"
    using prod_cases5 by blast
  have a: "0 < length (storyHistory app_kite)"
    and old: "scenes (storyHistory app_kite ! 0) = [scene_ready, scene_failed]"
    by (simp_all add: app_kite_def story_kite_def)
  have story: "continue_stage_one (map paragraph (scenes story_kite)) ?w
                 = (Inr ([''p3''], [''q3'']), ?w)"
    by (simp add: continue_stage_one_def)
  have inv: "length [''q3''] = length [''p3'']" by simp
  have lg: "slog = [\<lparr>attempts = [Inr ''data:image/png;base64,DDDD''],
                     delivered = Image ''data:image/png;base64,DDDD''\<rparr>]"
    using run
    by (simp add: continueStoryAndImages_def continue_stage_one_def generateImage_retry_def
        Let_def)
  from continuation_append [OF a story inv run]
  have "length (scenes (storyHistory s' ! 0)) = 3
      \<and> take 2 (scenes (storyHistory s' ! 0)) = [scene_ready, scene_failed]
      \<and> scenes (storyHistory s' ! 0) ! 2
         = \<lparr>paragraph = ''p3'', imagePrompt = Some ''q3'',
            sceneImage = Image ''data:image/png;base64,DDDD'', videoPrompt = None,
            isVideoPromptLoading = None, isRegenerating = None\<rparr>"
    by (simp add: old lg numeral_2_eq_2 numeral_3_eq_3)
  with run show ?thesis by blast
qed

end
